(* ===== verification/Prelude.thy ===== *)
theory Prelude
  imports Complex_Main "HOL-Library.Word" "HOL-Library.Sublist"
begin

text \<open>
  The vocabulary every component shares: Python's text and byte strings, the exceptions of the
  service as values, and the results of calls that may raise.

  A Python \<open>str\<close> is the list of its code points (\<open>int list\<close>), so that a character outside ASCII
  is one element, as in Python; a literal of the source is written \<open>lit ''...''\<close>. A \<open>bytes\<close> or
  \<open>bytearray\<close> value is a list of 8-bit words. A call that returns \<open>v\<close> has the value
  \<open>Inr v\<close>; one that raises \<open>e\<close> has the value \<open>Inl e\<close>.
\<close>

section \<open>Text and bytes\<close>

type_synonym pystr = "int list"
type_synonym bytes = "8 word list"

definition lit :: "string \<Rightarrow> pystr" where
  "lit s = map of_char s"

lemma lit_Nil [simp]: "lit [] = []"
  by (simp add: lit_def)

lemma lit_Nil_iff [simp]: "lit s = [] \<longleftrightarrow> s = []" "[] = lit s \<longleftrightarrow> s = []"
  by (auto simp: lit_def)

lemma lit_append: "lit (s @ t) = lit s @ lit t"
  by (simp add: lit_def)

lemma length_lit [simp]: "length (lit s) = length s"
  by (simp add: lit_def)

lemma inj_lit: "inj lit"
proof (rule injI)
  fix s t
  assume "lit s = lit t"
  moreover have "inj (of_char :: char \<Rightarrow> int)"
    by (rule injI) simp
  ultimately show "s = t"
    by (simp add: lit_def inj_map_eq_map)
qed

lemma lit_eq_iff [simp]: "lit s = lit t \<longleftrightarrow> s = t"
  using inj_lit by (auto dest: injD)

section \<open>Exceptions\<close>

text \<open>
  The exception classes of the service (minting.py, ccache.py, ratelimit.py), FastAPI's
  \<open>HTTPException\<close>, and the classes of the standard library and of the two libraries the code
  catches by name. \<open>OtherExn\<close> stands for any further class, named by its first argument. Where
  the source keeps a message the constructor carries it.
\<close>

datatype exn =
    InvalidUsernameError pystr
  | InvalidLifetimeError pystr
  | MintingError pystr
  | BadPasswordError pystr
  | BadKeytabError pystr
  | UnknownPrincipalError pystr
  | AccountUnusableError pystr
  | TicketExpiredError pystr
  | CcacheParseError pystr
  | RateLimitedError rat
  | HTTPException int pystr "(pystr \<times> pystr) list"
  | Krb5Error pystr
  | PyJWTError pystr
  | OSErr pystr
  | TimeoutExpired
  | ValueErr pystr
  | UnicodeErr pystr
  | BinasciiErr pystr
  | KeyErr pystr
  | AttributeErr pystr
  | TypeErr pystr
  | OverflowErr pystr
  | OtherExn pystr pystr

text \<open>\<open>UnicodeError\<close> and \<open>binascii.Error\<close> are subclasses of \<open>ValueError\<close>: an
  \<open>except ValueError\<close> catches them too.\<close>

fun is_ValueError :: "exn \<Rightarrow> bool" where
  "is_ValueError (ValueErr _) = True"
| "is_ValueError (UnicodeErr _) = True"
| "is_ValueError (BinasciiErr _) = True"
| "is_ValueError _ = False"

fun is_KeyError :: "exn \<Rightarrow> bool" where
  "is_KeyError (KeyErr _) = True"
| "is_KeyError _ = False"

fun is_OSError :: "exn \<Rightarrow> bool" where
  "is_OSError (OSErr _) = True"
| "is_OSError _ = False"

fun is_Krb5Error :: "exn \<Rightarrow> bool" where
  "is_Krb5Error (Krb5Error _) = True"
| "is_Krb5Error _ = False"

fun is_PyJWTError :: "exn \<Rightarrow> bool" where
  "is_PyJWTError (PyJWTError _) = True"
| "is_PyJWTError _ = False"

fun is_HTTPException :: "exn \<Rightarrow> bool" where
  "is_HTTPException (HTTPException _ _ _) = True"
| "is_HTTPException _ = False"

section \<open>Shared lemmas\<close>

lemma map_sum_eq_Inr [simp]: "map_sum f g r = Inr v \<longleftrightarrow> (\<exists>y. r = Inr y \<and> v = g y)"
  by (cases r) auto

lemma map_sum_eq_Inl [simp]: "map_sum f g r = Inl v \<longleftrightarrow> (\<exists>y. r = Inl y \<and> v = f y)"
  by (cases r) auto

lemma sorted_filter_eq_drop:
  fixes xs :: "'a::linorder list"
  assumes "sorted xs" and "\<And>x y. x \<le> y \<Longrightarrow> P x \<Longrightarrow> P y"
  obtains n where "n \<le> length xs" and "filter P xs = drop n xs" and "\<forall>i<n. \<not> P (xs ! i)"
  using assms(1)
proof (induction xs arbitrary: thesis)
  case Nil
  show ?case by (rule Nil(1) [of 0]) simp_all
next
  case (Cons x xs)
  show ?case
  proof (cases "P x")
    case True
    with Cons.prems(2) assms(2) have "\<forall>y\<in>set xs. P y" by auto
    with True show ?thesis by (intro Cons.prems(1) [of 0]) simp_all
  next
    case False
    from Cons.prems(2) have "sorted xs" by simp
    from Cons.IH [OF _ this] obtain n where n: "n \<le> length xs" "filter P xs = drop n xs"
      "\<forall>i<n. \<not> P (xs ! i)" by blast
    show ?thesis
      by (rule Cons.prems(1) [of "Suc n"]) (use n False in \<open>auto simp: nth_Cons split: nat.splits\<close>)
  qed
qed

end
