(* ===== verification/Py_Text.thy ===== *)
theory Py_Text
  imports Prelude
begin

text \<open>
  The parts of Python's text library the service uses: the character classes behind \<open>\d\<close> and
  \<open>str.strip\<close>, UTF-8 (\<open>str.encode\<close>, \<open>bytes.decode\<close> in its strict and its replacing mode),
  the decimal form of an integer and the \<open>.0f\<close> format. Substring tests (\<open>marker in text\<close>)
  are \<open>sublist marker text\<close> of HOL-Library.Sublist.
\<close>

section \<open>Character classes\<close>

text \<open>
  The zero of every block of ten Unicode decimal digits (category Nd, Unicode 15.0, the
  database of Python 3.12). On \<open>str\<close> patterns \<open>\d\<close> matches all of them.
\<close>

definition decimal_zeros :: "int list" where
  "decimal_zeros = [48, 1632, 1776, 1984, 2406, 2534, 2662, 2790, 2918, 3046, 3174, 3302, 3430,
     3558, 3664, 3792, 3872, 4160, 4240, 6112, 6160, 6470, 6608, 6784, 6800, 6992, 7088, 7232, 7248,
     42528, 43216, 43264, 43472, 43504, 43600, 44016, 65296, 66720, 68912, 69734, 69872, 69942,
     70096, 70384, 70736, 70864, 71248, 71360, 71472, 71904, 72016, 72784, 73040, 73120, 73552,
     92768, 92864, 93008, 120782, 120792, 120802, 120812, 120822, 123200, 123632, 124144, 125264,
     130032]"

definition is_decimal :: "int \<Rightarrow> bool" where
  "is_decimal c \<longleftrightarrow> list_ex (\<lambda>z. z \<le> c \<and> c < z + 10) decimal_zeros"

definition is_ascii_digit :: "int \<Rightarrow> bool" where
  "is_ascii_digit c \<longleftrightarrow> 48 \<le> c \<and> c \<le> 57"

definition is_ascii_alpha :: "int \<Rightarrow> bool" where
  "is_ascii_alpha c \<longleftrightarrow> 65 \<le> c \<and> c \<le> 90 \<or> 97 \<le> c \<and> c \<le> 122"

lemma ascii_digit_is_decimal: "is_ascii_digit c \<Longrightarrow> is_decimal c"
  by (auto simp: is_ascii_digit_def is_decimal_def decimal_zeros_def)

lemma decimal_below_128: "c < 128 \<Longrightarrow> is_decimal c \<longleftrightarrow> is_ascii_digit c"
  by (auto simp: is_ascii_digit_def is_decimal_def decimal_zeros_def)

lemma decimal_ge_48: "is_decimal c \<Longrightarrow> 48 \<le> c"
  by (auto simp: is_decimal_def decimal_zeros_def)

text \<open>\<open>str.isspace\<close>, which is what \<open>str.strip()\<close> removes at both ends.\<close>

definition is_space :: "int \<Rightarrow> bool" where
  "is_space c \<longleftrightarrow> 9 \<le> c \<and> c \<le> 13 \<or> 28 \<le> c \<and> c \<le> 32 \<or> c = 133 \<or> c = 160 \<or> c = 5760
     \<or> 8192 \<le> c \<and> c \<le> 8202 \<or> c = 8232 \<or> c = 8233 \<or> c = 8239 \<or> c = 8287 \<or> c = 12288"

definition strip :: "pystr \<Rightarrow> pystr" where
  "strip s = rev (dropWhile is_space (rev (dropWhile is_space s)))"

text \<open>A marker that neither starts nor ends with white space survives \<open>strip\<close>.\<close>

lemma strip_sublist: "sublist (strip s) s"
proof -
  have "\<exists>us. s = us @ dropWhile is_space s"
    by (metis takeWhile_dropWhile_id)
  moreover have "\<exists>ws. dropWhile is_space s = strip s @ ws"
    unfolding strip_def
    by (metis rev_append rev_rev_ident takeWhile_dropWhile_id)
  ultimately obtain us ws where "s = us @ strip s @ ws" by metis
  then show ?thesis unfolding sublist_def by blast
qed

section \<open>Numbers as text\<close>

fun digits_of :: "nat \<Rightarrow> pystr" where
  "digits_of n = (if n < 10 then [48 + int n] else digits_of (n div 10) @ [48 + int (n mod 10)])"

declare digits_of.simps [simp del]

definition str_int :: "int \<Rightarrow> pystr" where
  "str_int i = (if i < 0 then 45 # digits_of (nat (- i)) else digits_of (nat i))"

lemma digits_of_digits: "list_all is_ascii_digit (digits_of n)"
proof (induction n rule: digits_of.induct)
  case (1 n)
  have "is_ascii_digit (48 + int (k mod 10))" for k :: nat
    unfolding is_ascii_digit_def by presburger
  with 1 show ?case
    by (subst digits_of.simps) (auto simp: is_ascii_digit_def [of "48 + int n"])
qed

text \<open>\<open>format(x, '.0f')\<close>: the nearest integer, halves to the even neighbour.\<close>

definition round_half_even :: "rat \<Rightarrow> int" where
  "round_half_even x =
     (let f = \<lfloor>x\<rfloor>; d = x - of_int f
      in if d < 1 / 2 then f else if 1 / 2 < d then f + 1 else if even f then f else f + 1)"

definition fmt_0f :: "rat \<Rightarrow> pystr" where
  "fmt_0f x = str_int (round_half_even x)"

lemma round_half_even_near: "\<bar>of_int (round_half_even x) - x\<bar> \<le> 1 / 2"
proof -
  let ?f = "of_int \<lfloor>x\<rfloor> :: rat"
  have "?f \<le> x" "x < ?f + 1" by linarith+
  then show ?thesis
    unfolding round_half_even_def Let_def by (cases "x - ?f < 1 / 2"; cases "1 / 2 < x - ?f") auto
qed

section \<open>UTF-8\<close>

definition is_surrogate :: "int \<Rightarrow> bool" where
  "is_surrogate c \<longleftrightarrow> 55296 \<le> c \<and> c \<le> 57343"

definition is_scalar :: "int \<Rightarrow> bool" where
  "is_scalar c \<longleftrightarrow> 0 \<le> c \<and> c < 1114112 \<and> \<not> is_surrogate c"

definition utf8_char :: "int \<Rightarrow> int list" where
  "utf8_char c =
     (if c < 128 then [c]
      else if c < 2048 then [192 + c div 64, 128 + c mod 64]
      else if c < 65536 then [224 + c div 4096, 128 + c div 64 mod 64, 128 + c mod 64]
      else [240 + c div 262144, 128 + c div 4096 mod 64, 128 + c div 64 mod 64, 128 + c mod 64])"

definition utf8_encode :: "pystr \<Rightarrow> exn + bytes" where
  "utf8_encode s =
     (if list_ex is_surrogate s then Inl (UnicodeErr (lit ''surrogates not allowed''))
      else Inr (map word_of_int (concat (map utf8_char s))))"

definition is_cont :: "int \<Rightarrow> bool" where
  "is_cont b \<longleftrightarrow> 128 \<le> b \<and> b \<le> 191"

definition second_ok :: "int \<Rightarrow> int \<Rightarrow> bool" where
  "second_ok b0 b1 \<longleftrightarrow>
     (if b0 = 224 then 160 \<le> b1 \<and> b1 \<le> 191
      else if b0 = 237 then 128 \<le> b1 \<and> b1 \<le> 159
      else if b0 = 240 then 144 \<le> b1 \<and> b1 \<le> 191
      else if b0 = 244 then 128 \<le> b1 \<and> b1 \<le> 143
      else is_cont b1)"

text \<open>
  One step of the decoder: the lead byte and what follows it, to the code point read
  (\<open>None\<close>: an invalid sequence, of which the longest valid prefix is consumed, as CPython does)
  and the bytes left.
\<close>

definition utf8_step :: "int \<Rightarrow> int list \<Rightarrow> int option \<times> int list" where
  "utf8_step b0 bs =
     (if b0 < 128 then (Some b0, bs)
      else if 194 \<le> b0 \<and> b0 \<le> 223 then
        (case bs of [] \<Rightarrow> (None, [])
         | b1 # r \<Rightarrow> if is_cont b1 then (Some ((b0 - 192) * 64 + (b1 - 128)), r) else (None, bs))
      else if 224 \<le> b0 \<and> b0 \<le> 239 then
        (case bs of [] \<Rightarrow> (None, [])
         | b1 # r \<Rightarrow> if \<not> second_ok b0 b1 then (None, bs)
             else (case r of [] \<Rightarrow> (None, [])
                   | b2 # r2 \<Rightarrow> if is_cont b2
                       then (Some ((b0 - 224) * 4096 + (b1 - 128) * 64 + (b2 - 128)), r2)
                       else (None, r)))
      else if 240 \<le> b0 \<and> b0 \<le> 244 then
        (case bs of [] \<Rightarrow> (None, [])
         | b1 # r \<Rightarrow> if \<not> second_ok b0 b1 then (None, bs)
             else (case r of [] \<Rightarrow> (None, [])
                   | b2 # r2 \<Rightarrow> if \<not> is_cont b2 then (None, r)
                       else (case r2 of [] \<Rightarrow> (None, [])
                             | b3 # r3 \<Rightarrow> if is_cont b3
                                 then (Some ((b0 - 240) * 262144 + (b1 - 128) * 4096
                                             + (b2 - 128) * 64 + (b3 - 128)), r3)
                                 else (None, r2))))
      else (None, bs))"

lemma utf8_step_shorter: "length (snd (utf8_step b bs)) \<le> length bs"
  by (auto simp: utf8_step_def split: list.split)

function utf8_items :: "int list \<Rightarrow> int option list" where
  "utf8_items [] = []"
| "utf8_items (b # bs) = fst (utf8_step b bs) # utf8_items (snd (utf8_step b bs))"
  by pat_completeness auto
termination
  by (relation "measure length") (auto simp: utf8_step_shorter less_Suc_eq_le)

definition utf8_decode :: "bytes \<Rightarrow> exn + pystr" where
  "utf8_decode bs =
     (let items = utf8_items (map uint bs)
      in if None \<in> set items then Inl (UnicodeErr (lit ''invalid utf-8''))
         else Inr (map the items))"

definition utf8_decode_replace :: "bytes \<Rightarrow> pystr" where
  "utf8_decode_replace bs =
     map (\<lambda>x. case x of None \<Rightarrow> 65533 | Some c \<Rightarrow> c) (utf8_items (map uint bs))"

lemma utf8_char_bytes: "is_scalar c \<Longrightarrow> b \<in> set (utf8_char c) \<Longrightarrow> 0 \<le> b \<and> b < 256"
  unfolding is_scalar_def utf8_char_def by (auto split: if_splits; presburger)

lemma utf8_items_char:
  assumes "is_scalar c"
  shows "utf8_items (utf8_char c @ bs) = Some c # utf8_items bs"
proof -
  have cont: "is_cont (128 + x mod 64)" for x :: int
    unfolding is_cont_def by presburger
  have div4096: "c div 4096 = c div 64 div 64"
    using zdiv_zmult2_eq [of 64 c 64] by simp
  have div262144: "c div 262144 = c div 64 div 64 div 64"
    using zdiv_zmult2_eq [of 64 c 4096] div4096 by simp
  consider "c < 128" | "128 \<le> c" "c < 2048" | "2048 \<le> c" "c < 65536" | "65536 \<le> c" by linarith
  then show ?thesis
  proof cases
    case 1
    then show ?thesis by (simp add: utf8_char_def utf8_step_def)
  next
    case 2
    then have "194 \<le> 192 + c div 64" "192 + c div 64 \<le> 223" by presburger+
    moreover have "c div 64 * 64 + c mod 64 = c" by presburger
    ultimately show ?thesis using 2 cont [of c] by (simp add: utf8_char_def utf8_step_def)
  next
    case 3
    define q r t where "q = c div 4096" and "r = c div 64 mod 64" and "t = c mod 64"
    have c: "q * 4096 + r * 64 + t = c"
      using div_mult_mod_eq [of c 64] div_mult_mod_eq [of "c div 64" 64]
      unfolding q_def r_def t_def div4096 by linarith
    have rt: "0 \<le> r" "r < 64" "0 \<le> t" "t < 64"
      by (simp_all add: r_def t_def)
    from c rt 3 have q: "0 \<le> q" "q \<le> 15" by linarith+
    have "second_ok (224 + q) (128 + r)"
    proof -
      have "32 \<le> r" if "q = 0" using that c rt 3 by linarith
      moreover have "r \<le> 31" if "q = 13"
        using that c rt assms by (auto simp: is_scalar_def is_surrogate_def)
      ultimately show ?thesis using q rt by (simp add: second_ok_def is_cont_def)
    qed
    then show ?thesis
      using 3 q c rt cont [of c] by (simp add: utf8_char_def utf8_step_def flip: q_def r_def t_def)
  next
    case 4
    define q r t v where "q = c div 262144" and "r = c div 4096 mod 64"
      and "t = c div 64 mod 64" and "v = c mod 64"
    have c: "q * 262144 + r * 4096 + t * 64 + v = c"
      using div_mult_mod_eq [of c 64] div_mult_mod_eq [of "c div 64" 64]
        div_mult_mod_eq [of "c div 64 div 64" 64]
      unfolding q_def r_def t_def v_def div4096 div262144 by linarith
    have rt: "0 \<le> r" "r < 64" "0 \<le> t" "t < 64" "0 \<le> v" "v < 64"
      by (simp_all add: r_def t_def v_def)
    have top: "c < 1114112" using assms by (simp add: is_scalar_def)
    from c rt 4 top have q: "0 \<le> q" "q \<le> 4" by linarith+
    have "second_ok (240 + q) (128 + r)"
    proof -
      have "16 \<le> r" if "q = 0" using that c rt 4 by linarith
      moreover have "r \<le> 15" if "q = 4" using that c rt top by linarith
      ultimately show ?thesis using q rt by (simp add: second_ok_def is_cont_def)
    qed
    then show ?thesis
      using 4 q c rt cont [of c] cont [of "c div 64"]
      by (simp add: utf8_char_def utf8_step_def flip: q_def r_def t_def v_def)
  qed
qed

lemma utf8_items_encode:
  "list_all is_scalar s \<Longrightarrow> utf8_items (concat (map utf8_char s)) = map Some s"
  by (induction s) (simp_all add: utf8_items_char)

lemma utf8_roundtrip:
  assumes "list_all is_scalar s"
  obtains bs where "utf8_encode s = Inr bs" and "utf8_decode bs = Inr s"
    and "utf8_decode_replace bs = s"
proof
  let ?is = "concat (map utf8_char s)"
  let ?bs = "map word_of_int ?is :: bytes"
  have "\<not> list_ex is_surrogate s"
    using assms by (auto simp: list_ex_iff list_all_iff is_scalar_def)
  then show "utf8_encode s = Inr ?bs" by (simp add: utf8_encode_def)
  have "(uint (word_of_int b :: 8 word)) = b" if "b \<in> set ?is" for b
  proof -
    from assms that have "0 \<le> b \<and> b < 256"
      by (auto simp: list_all_iff dest: utf8_char_bytes)
    then show ?thesis by (simp add: unsigned_of_int take_bit_eq_mod)
  qed
  then have "map uint ?bs = ?is"
    unfolding map_map by (intro map_idI) simp
  then have items: "utf8_items (map uint ?bs) = map Some s"
    using utf8_items_encode [OF assms] by simp
  show "utf8_decode ?bs = Inr s" "utf8_decode_replace ?bs = s"
    unfolding utf8_decode_def utf8_decode_replace_def items Let_def by (auto simp: comp_def)
qed

section \<open>Messages of exceptions\<close>

text \<open>\<open>RateLimitedError.__init__\<close> builds the message from the seconds left.\<close>

definition rate_limited_message :: "rat \<Rightarrow> pystr" where
  "rate_limited_message retry_after_seconds =
     lit ''too many failed authentication attempts; retry after ''
     @ fmt_0f retry_after_seconds @ lit ''s''"

text \<open>\<open>str(exc)\<close>, for the exceptions whose text the code uses.\<close>

fun exn_str :: "exn \<Rightarrow> pystr" where
  "exn_str (RateLimitedError s) = rate_limited_message s"
| "exn_str (InvalidUsernameError m) = m"
| "exn_str (InvalidLifetimeError m) = m"
| "exn_str (MintingError m) = m"
| "exn_str (BadPasswordError m) = m"
| "exn_str (BadKeytabError m) = m"
| "exn_str (UnknownPrincipalError m) = m"
| "exn_str (AccountUnusableError m) = m"
| "exn_str (TicketExpiredError m) = m"
| "exn_str (CcacheParseError m) = m"
| "exn_str (HTTPException c d h) = str_int c @ lit '': '' @ d"
| "exn_str (Krb5Error m) = m"
| "exn_str (PyJWTError m) = m"
| "exn_str (OSErr m) = m"
| "exn_str TimeoutExpired = lit ''timed out''"
| "exn_str (ValueErr m) = m"
| "exn_str (UnicodeErr m) = m"
| "exn_str (BinasciiErr m) = m"
| "exn_str (KeyErr m) = m"
| "exn_str (AttributeErr m) = m"
| "exn_str (TypeErr m) = m"
| "exn_str (OverflowErr m) = m"
| "exn_str (OtherExn c m) = m"

end
