(* ===== verification/Logging.thy ===== *)
theory Logging
  imports Py_Text "HOL-Library.AList"
begin

text \<open>
  logging.py: the event dictionaries the service logs, the redacting processor that every one of
  them passes through, and the level the handler emits from. A Python \<open>dict\<close> with string keys is
  an association list in insertion order; \<open>AList.update\<close> is item assignment.

  The processor chain is a list of named third-party processors, parameters of \<open>run_chain\<close>, and
  the redacting one. The rest of the wiring (renderers, formatter, handler objects) is left out.
\<close>

section \<open>JSON values and event dictionaries\<close>

datatype json = JNull | JBool bool | JNum rat | JStr pystr | JArr "json list" | JObj "(pystr \<times> json) list"

type_synonym event_dict = "(pystr \<times> json) list"

definition opt_str :: "pystr option \<Rightarrow> json" where
  "opt_str v = (case v of None \<Rightarrow> JNull | Some s \<Rightarrow> JStr s)"

section \<open>The redacting processor\<close>

definition REDACTED_KEYS :: "pystr list" where
  "REDACTED_KEYS = [lit ''token'', lit ''bearer'', lit ''authorization'', lit ''password'',
     lit ''ccache'', lit ''ccache_b64'']"

definition REDACTED_VALUE :: json where
  "REDACTED_VALUE = JStr (lit ''[REDACTED]'')"

definition redact_key :: "pystr \<Rightarrow> event_dict \<Rightarrow> event_dict" where
  "redact_key key d = (if key \<in> set (map fst d) then AList.update key REDACTED_VALUE d else d)"

definition redact :: "event_dict \<Rightarrow> event_dict" where
  "redact d = fold redact_key REDACTED_KEYS d"

lemma keys_redact_key [simp]: "map fst (redact_key k d) = map fst d"
  by (auto simp: redact_key_def update_keys)

lemma map_of_redact_key:
  "map_of (redact_key k d) j = (if j = k \<and> map_of d k \<noteq> None then Some REDACTED_VALUE else map_of d j)"
  by (auto simp: redact_key_def update_conv' map_of_eq_None_iff)

lemma keys_fold_redact [simp]: "map fst (fold redact_key ks d) = map fst d"
  by (induction ks arbitrary: d) auto

lemma map_of_fold_redact:
  "map_of (fold redact_key ks d) j =
     (if j \<in> set ks \<and> map_of d j \<noteq> None then Some REDACTED_VALUE else map_of d j)"
  by (induction ks arbitrary: d) (auto simp: map_of_redact_key)

lemma redact_lookup:
  "map_of (redact d) j =
     (if j \<in> set REDACTED_KEYS \<and> map_of d j \<noteq> None then Some REDACTED_VALUE else map_of d j)"
  by (simp add: redact_def map_of_fold_redact)

text \<open>The processor replaces the value of every sensitive key that is present, leaves every other
  entry as it was, and adds, drops and reorders no key.\<close>

lemma redact_exact:
  "map fst (redact d) = map fst d
   \<and> (\<forall>k. map_of (redact d) k =
        (if k \<in> set REDACTED_KEYS \<and> map_of d k \<noteq> None then Some REDACTED_VALUE else map_of d k))"
  unfolding redact_lookup by (simp add: redact_def)

lemma redact_leaves_keytab:
  "redact [(lit ''keytab'', v), (lit ''keytab_b64'', v')] = [(lit ''keytab'', v), (lit ''keytab_b64'', v')]"
  by (simp add: redact_def REDACTED_KEYS_def redact_key_def)

section \<open>The processor chain\<close>

datatype processor = Structlog string | SensitiveValueRedactProcessor

definition shared_processors :: "processor list" where
  "shared_processors = [Structlog ''merge_contextvars'', Structlog ''add_logger_name'',
     Structlog ''add_log_level'', Structlog ''PositionalArgumentsFormatter'', Structlog ''TimeStamper'',
     Structlog ''StackInfoRenderer'', SensitiveValueRedactProcessor]"

text \<open>\<open>lib\<close> says what structlog's own processors do; one that raises (\<open>DropEvent\<close>) ends the chain.\<close>

fun run_chain ::
    "(string \<Rightarrow> event_dict \<Rightarrow> exn + event_dict) \<Rightarrow> processor list \<Rightarrow> event_dict \<Rightarrow> exn + event_dict" where
  "run_chain lib [] d = Inr d"
| "run_chain lib (Structlog name # ps) d = (case lib name d of Inl e \<Rightarrow> Inl e | Inr d' \<Rightarrow> run_chain lib ps d')"
| "run_chain lib (SensitiveValueRedactProcessor # ps) d = run_chain lib ps (redact d)"

lemma run_chain_append:
  "run_chain lib (ps @ qs) d = (case run_chain lib ps d of Inl e \<Rightarrow> Inl e | Inr d' \<Rightarrow> run_chain lib qs d')"
  by (induction lib ps d rule: run_chain.induct) (auto split: sum.split)

definition secrets_hidden :: "event_dict \<Rightarrow> bool" where
  "secrets_hidden d \<longleftrightarrow> list_all (\<lambda>k. map_of d k = None \<or> map_of d k = Some REDACTED_VALUE) REDACTED_KEYS"

lemma redact_hides: "secrets_hidden (redact d)"
  by (simp add: secrets_hidden_def list_all_iff redact_lookup)

lemma redact_last: "run_chain lib (ps @ [SensitiveValueRedactProcessor]) d = Inr d' \<Longrightarrow> secrets_hidden d'"
  by (auto simp: run_chain_append redact_hides split: sum.splits)


section \<open>Log calls and levels\<close>

record log_event =
  level :: int
  event :: pystr
  event_fields :: event_dict

definition log_call :: "int \<Rightarrow> string \<Rightarrow> event_dict \<Rightarrow> log_event" where
  "log_call l name d = \<lparr>level = l, event = lit name, event_fields = redact d\<rparr>"

abbreviation "LOG_DEBUG \<equiv> 10 :: int"
abbreviation "LOG_INFO \<equiv> 20 :: int"
abbreviation "LOG_WARNING \<equiv> 30 :: int"
abbreviation "LOG_ERROR \<equiv> 40 :: int"

definition ascii_upper :: "pystr \<Rightarrow> pystr" where
  "ascii_upper = map (\<lambda>c. if 97 \<le> c \<and> c \<le> 122 then c - 32 else c)"

definition level_names :: "(pystr \<times> int) list" where
  "level_names = [(lit ''CRITICAL'', 50), (lit ''FATAL'', 50), (lit ''ERROR'', 40),
     (lit ''WARN'', 30), (lit ''WARNING'', 30), (lit ''INFO'', 20), (lit ''DEBUG'', 10),
     (lit ''NOTSET'', 0)]"

text \<open>The loggers whose own level is raised.\<close>

definition NOISY :: "pystr list" where
  "NOISY = [lit ''uvicorn.access'', lit ''httpx'', lit ''httpcore'']"

record logging_config =
  processors :: "processor list"
  root_level :: int
  logger_levels :: "(pystr \<times> int) list"

text \<open>\<open>root_logger.setLevel(log_level.upper())\<close> gives the level the root logger emits from, or a
  \<open>ValueError\<close> for a name the logging module does not know.\<close>

definition configure_logging :: "pystr \<Rightarrow> exn + logging_config" where
  "configure_logging log_level =
     (case map_of level_names (ascii_upper log_level) of
        None \<Rightarrow> Inl (ValueErr (lit ''Unknown level''))
      | Some n \<Rightarrow> Inr \<lparr>processors = shared_processors, root_level = n,
                      logger_levels = map (\<lambda>noisy. (noisy, LOG_WARNING)) NOISY\<rparr>)"

definition emitted :: "logging_config \<Rightarrow> log_event list \<Rightarrow> log_event list" where
  "emitted c calls = filter (\<lambda>e. root_level c \<le> level e) calls"

text \<open>An audit line is logged at INFO: with a higher \<open>LOG_LEVEL\<close> none is emitted.\<close>

lemma high_level_drops_audits:
  "(case configure_logging (lit ''warning'') of
      Inl _ \<Rightarrow> False | Inr c \<Rightarrow> emitted c [log_call LOG_INFO ''audit'' d] = [])"
  by (simp add: configure_logging_def ascii_upper_def level_names_def lit_def emitted_def log_call_def)

end
