(* ===== verification/Runtime.thy ===== *)
theory Runtime
  imports Logging
begin

text \<open>
  The world the handlers act on and the primitive operations they act with: files and directories,
  byte buffers with identity, the processes started, and the log. An operation (type \<open>'a op\<close>) takes
  the world and returns its result, a value or an exception, with the world it leaves.

  What the code cannot determine is the parameter \<open>os_env\<close>: which system calls fail, the name
  \<open>mkdtemp\<close> chooses, the environment variables, and what a child process answers and does to the
  files. \<open>run_subprocess\<close> is \<open>_run_subprocess\<close> of minting.py; the rest is standard library.
\<close>

section \<open>The world\<close>

record file_node =
  content :: bytes
  mode :: int

text \<open>A Python buffer: only a \<open>bytearray\<close> can be overwritten in place.\<close>

datatype pyobj = ByteArray bytes | Bytes bytes

fun raw :: "pyobj \<Rightarrow> bytes" where
  "raw (ByteArray b) = b"
| "raw (Bytes b) = b"

record invocation =
  argv :: "pystr list"
  stdin :: "bytes option"
  timeout :: int
  child_environ :: "(pystr \<times> pystr) list"

record world =
  files :: "pystr \<rightharpoonup> file_node"
  dirs :: "pystr \<rightharpoonup> int"
  heap :: "pyobj list"
  spawned :: "invocation list"
  logged :: "log_event list"

datatype child_result =
    SpawnFailed pystr
  | TimedOut
  | Exited int bytes bytes

datatype io_call = Mkdir pystr | WriteBytes pystr | Chmod pystr | ReadBytes pystr | Rmtree pystr

record os_env =
  fault :: "io_call \<Rightarrow> pystr option"
  fresh_dir :: "pystr + pystr"
  file_mode :: int
  environ :: "(pystr \<times> pystr) list"
  executable :: pystr
  child :: "invocation \<Rightarrow> (pystr \<rightharpoonup> file_node) \<Rightarrow> child_result \<times> (pystr \<rightharpoonup> file_node)"

section \<open>Operations and their composition\<close>

text \<open>The combinators are generic in the state, so that the handlers can use them over the service.\<close>

type_synonym ('s, 'a) act = "'s \<Rightarrow> (exn + 'a) \<times> 's"

type_synonym 'a op = "(world, 'a) act"

definition ret :: "'a \<Rightarrow> ('s, 'a) act" where
  "ret x w = (Inr x, w)"

definition throw :: "exn \<Rightarrow> ('s, 'a) act" where
  "throw e w = (Inl e, w)"

definition andthen :: "('s, 'a) act \<Rightarrow> ('a \<Rightarrow> ('s, 'b) act) \<Rightarrow> ('s, 'b) act" where
  "andthen m f w = (case m w of (Inl e, w1) \<Rightarrow> (Inl e, w1) | (Inr x, w1) \<Rightarrow> f x w1)"

text \<open>\<open>try: m except ... : h\<close>; \<open>h\<close> returns \<open>None\<close> for an exception it does not catch.\<close>

definition catching :: "('s, 'a) act \<Rightarrow> (exn \<Rightarrow> ('s, 'a) act option) \<Rightarrow> ('s, 'a) act" where
  "catching m h w =
     (case m w of
        (Inr x, w1) \<Rightarrow> (Inr x, w1)
      | (Inl e, w1) \<Rightarrow> (case h e of None \<Rightarrow> (Inl e, w1) | Some k \<Rightarrow> k w1))"

text \<open>\<open>try: x = m except ...: h\<close> followed by \<open>k x\<close>, which the \<open>try\<close> does not cover.\<close>

definition try_else ::
    "('s, 'a) act \<Rightarrow> (exn \<Rightarrow> ('s, 'b) act option) \<Rightarrow> ('a \<Rightarrow> ('s, 'b) act) \<Rightarrow> ('s, 'b) act" where
  "try_else m h k w =
     (case m w of
        (Inr x, w1) \<Rightarrow> k x w1
      | (Inl e, w1) \<Rightarrow> (case h e of None \<Rightarrow> (Inl e, w1) | Some g \<Rightarrow> g w1))"

text \<open>A step that reads the state it starts in.\<close>

definition reading :: "('s \<Rightarrow> ('s, 'a) act) \<Rightarrow> ('s, 'a) act" where
  "reading f w = f w w"

text \<open>\<open>try: m finally: c\<close>; an exception of \<open>c\<close> replaces the result.\<close>

definition finally_do :: "('s, 'a) act \<Rightarrow> ('s, unit) act \<Rightarrow> ('s, 'a) act" where
  "finally_do m c w =
     (case m w of (r, w1) \<Rightarrow> (case c w1 of (Inl e, w2) \<Rightarrow> (Inl e, w2) | (Inr _, w2) \<Rightarrow> (r, w2)))"

definition log_op :: "int \<Rightarrow> string \<Rightarrow> event_dict \<Rightarrow> unit op" where
  "log_op l name d w = (Inr (), w\<lparr>logged := logged w @ [log_call l name d]\<rparr>)"

text \<open>Buffers: an address is the position in \<open>heap\<close>.\<close>

definition alloc :: "pyobj \<Rightarrow> nat op" where
  "alloc obj w = (Inr (length (heap w)), w\<lparr>heap := heap w @ [obj]\<rparr>)"

definition deref :: "nat \<Rightarrow> bytes op" where
  "deref a w = (Inr (raw (heap w ! a)), w)"

definition append_bytes :: "nat \<Rightarrow> bytes \<Rightarrow> unit op" where
  "append_bytes a bs w = (Inr (), w\<lparr>heap := (heap w)[a := ByteArray (raw (heap w ! a) @ bs)]\<rparr>)"

section \<open>Files\<close>

definition with_fault :: "os_env \<Rightarrow> io_call \<Rightarrow> 'a op \<Rightarrow> 'a op" where
  "with_fault env c m = (case fault env c of Some msg \<Rightarrow> throw (OSErr msg) | None \<Rightarrow> m)"

definition join_path :: "pystr \<Rightarrow> string \<Rightarrow> pystr" where
  "join_path d name = d @ lit ''/'' @ lit name"

definition under :: "pystr \<Rightarrow> pystr \<Rightarrow> bool" where
  "under d p \<longleftrightarrow> p = d \<or> prefix (d @ lit ''/'') p"

text \<open>\<open>mkdir(mode=0o700, parents=True, exist_ok=True)\<close>; 448 is 0o700.\<close>

definition mkdir :: "os_env \<Rightarrow> pystr \<Rightarrow> unit op" where
  "mkdir env p = with_fault env (Mkdir p) (\<lambda>w.
     (Inr (), if dirs w p = None then w\<lparr>dirs := (dirs w)(p \<mapsto> 448)\<rparr> else w))"

definition write_bytes :: "os_env \<Rightarrow> pystr \<Rightarrow> bytes \<Rightarrow> unit op" where
  "write_bytes env p bs = with_fault env (WriteBytes p) (\<lambda>w.
     (Inr (), w\<lparr>files := (files w)(p \<mapsto> (case files w p of
        None \<Rightarrow> \<lparr>content = bs, mode = file_mode env\<rparr> | Some f \<Rightarrow> f\<lparr>content := bs\<rparr>))\<rparr>))"

definition chmod :: "os_env \<Rightarrow> pystr \<Rightarrow> int \<Rightarrow> unit op" where
  "chmod env p m = with_fault env (Chmod p) (\<lambda>w.
     (case files w p of
        None \<Rightarrow> (Inl (OSErr (lit ''No such file or directory'')), w)
      | Some f \<Rightarrow> (Inr (), w\<lparr>files := (files w)(p \<mapsto> f\<lparr>mode := m\<rparr>)\<rparr>)))"

definition read_bytes :: "os_env \<Rightarrow> pystr \<Rightarrow> bytes op" where
  "read_bytes env p = with_fault env (ReadBytes p) (\<lambda>w.
     (case files w p of
        None \<Rightarrow> (Inl (OSErr (lit ''No such file or directory'')), w)
      | Some f \<Rightarrow> (Inr (content f), w)))"

definition rmtree :: "os_env \<Rightarrow> pystr \<Rightarrow> unit op" where
  "rmtree env d = with_fault env (Rmtree d) (\<lambda>w.
     (Inr (), w\<lparr>files := (\<lambda>p. if under d p then None else files w p),
                 dirs := (\<lambda>p. if under d p then None else dirs w p)\<rparr>))"

text \<open>\<open>tempfile.TemporaryDirectory\<close>: a fresh 0700 directory, removed when the block is left.\<close>

definition mkdtemp :: "os_env \<Rightarrow> pystr op" where
  "mkdtemp env w =
     (case fresh_dir env of
        Inl msg \<Rightarrow> (Inl (OSErr msg), w)
      | Inr d \<Rightarrow> (Inr d, w\<lparr>dirs := (dirs w)(d \<mapsto> 448)\<rparr>))"

definition with_tmpdir :: "os_env \<Rightarrow> (pystr \<Rightarrow> 'a op) \<Rightarrow> 'a op" where
  "with_tmpdir env body = andthen (mkdtemp env) (\<lambda>d. finally_do (body d) (rmtree env d))"

section \<open>Child processes\<close>

text \<open>What \<open>subprocess.run\<close> refuses before it forks: a NUL in an argument, and a lone surrogate
  that \<open>os.fsencode\<close> has no byte for.\<close>

definition argv_error :: "pystr list \<Rightarrow> exn option" where
  "argv_error args =
     (if list_ex (list_ex (\<lambda>c. c = 0)) args then Some (ValueErr (lit ''embedded null byte''))
      else if list_ex (list_ex (\<lambda>c. is_surrogate c \<and> \<not> (56448 \<le> c \<and> c \<le> 56575))) args
        then Some (UnicodeErr (lit ''surrogates not allowed''))
      else None)"

definition run_child :: "os_env \<Rightarrow> invocation \<Rightarrow> (int \<times> bytes \<times> bytes) op" where
  "run_child env cmd w =
     (case argv_error (argv cmd) of Some e \<Rightarrow> (Inl e, w) | None \<Rightarrow>
      case child env cmd (files w) of
        (SpawnFailed msg, _) \<Rightarrow> (Inl (OSErr msg), w)
      | (TimedOut, fs) \<Rightarrow> (Inl TimeoutExpired, w\<lparr>files := fs, spawned := spawned w @ [cmd]\<rparr>)
      | (Exited rc out err, fs) \<Rightarrow>
          (Inr (rc, out, err), w\<lparr>files := fs, spawned := spawned w @ [cmd]\<rparr>))"

text \<open>The two \<open>except\<close> clauses of \<open>_run_subprocess\<close>.\<close>

definition subprocess_failure ::
    "pystr \<Rightarrow> pystr \<Rightarrow> int \<Rightarrow> exn \<Rightarrow> (int \<times> bytes \<times> bytes) op option" where
  "subprocess_failure binary ctx timeout_seconds e =
     (case e of
        OSErr msg \<Rightarrow> Some (andthen
          (log_op LOG_ERROR ''subprocess_spawn_failed''
             [(lit ''binary'', JStr binary), (lit ''error'', JStr msg)])
          (\<lambda>_. throw (MintingError (lit ''failed to invoke '' @ binary))))
      | TimeoutExpired \<Rightarrow> Some (andthen
          (log_op LOG_ERROR ''subprocess_timed_out''
             [(lit ''binary'', JStr binary), (lit ''context'', JStr ctx),
              (lit ''timeout'', JNum (of_int timeout_seconds))])
          (\<lambda>_. throw (MintingError (binary @ lit '' timed out''))))
      | _ \<Rightarrow> None)"

definition run_subprocess ::
    "os_env \<Rightarrow> pystr list \<Rightarrow> bytes option \<Rightarrow> int \<Rightarrow> pystr \<Rightarrow> pystr \<Rightarrow> (pystr \<times> pystr) list
       \<Rightarrow> (int \<times> bytes \<times> bytes) op" where
  "run_subprocess env args input timeout_seconds binary ctx cenv =
     catching
       (run_child env \<lparr>argv = args, stdin = input, timeout = timeout_seconds, child_environ = cenv\<rparr>)
       (subprocess_failure binary ctx timeout_seconds)"

end
