(* ===== verification/Ratelimit.thy ===== *)
theory Ratelimit
  imports Prelude
begin

text \<open>
  The failed-authentication limiter of ratelimit.py: its state, the operations \<open>check\<close>,
  \<open>record_failure\<close> and \<open>reset\<close>, and the contract \<open>failed_auth_limiter\<close> its clients use (app.py),
  with the history invariant of one username proved inside it for at most \<open>k\<close> attempts in flight.

  Clock readings (\<open>time.monotonic()\<close>) are rationals, so differences and sums of readings are
  exact; the rounding of Python's floats is not modelled. A reading is an argument of the
  operation that takes it.
\<close>

section \<open>The limiter\<close>

record username_state =
  failure_times :: "rat list"
  locked_until :: "rat option"

record rate_limiter =
  max_attempts :: int
  window_seconds :: rat
  lockout_seconds :: rat
  limiter_state :: "pystr \<rightharpoonup> username_state"

definition fresh_username_state :: username_state where
  "fresh_username_state = \<lparr>failure_times = [], locked_until = None\<rparr>"

definition new_rate_limiter :: "int \<Rightarrow> rat \<Rightarrow> rat \<Rightarrow> rate_limiter" where
  "new_rate_limiter m w l =
     \<lparr>max_attempts = m, window_seconds = w, lockout_seconds = l, limiter_state = Map.empty\<rparr>"

definition check :: "rate_limiter \<Rightarrow> pystr \<Rightarrow> rat \<Rightarrow> (exn + unit) \<times> rate_limiter" where
  "check rl username now =
     (case limiter_state rl username of
        None \<Rightarrow> (Inr (), rl)
      | Some state \<Rightarrow>
          (case locked_until state of
             None \<Rightarrow> (Inr (), rl)
           | Some until \<Rightarrow>
               (if now < until then (Inl (RateLimitedError (until - now)), rl)
                else (Inr (), rl\<lparr>limiter_state := (limiter_state rl)
                        (username \<mapsto> state\<lparr>locked_until := None, failure_times := []\<rparr>)\<rparr>))))"

definition record_failure :: "rate_limiter \<Rightarrow> pystr \<Rightarrow> rat \<Rightarrow> rate_limiter" where
  "record_failure rl username now =
     (let state = (case limiter_state rl username of None \<Rightarrow> fresh_username_state | Some s \<Rightarrow> s);
          times = filter (\<lambda>t. now - t < window_seconds rl) (failure_times state) @ [now];
          state1 = state\<lparr>failure_times := times\<rparr>;
          state2 = (if max_attempts rl \<le> int (length times)
                    then state1\<lparr>locked_until := Some (now + lockout_seconds rl)\<rparr>
                    else state1)
      in rl\<lparr>limiter_state := (limiter_state rl)(username \<mapsto> state2)\<rparr>)"

definition reset :: "rate_limiter \<Rightarrow> pystr \<Rightarrow> rate_limiter" where
  "reset rl username = rl\<lparr>limiter_state := (limiter_state rl)(username := None)\<rparr>"

subsection \<open>What a client observes of one username\<close>

definition times_of :: "rate_limiter \<Rightarrow> pystr \<Rightarrow> rat list" where
  "times_of rl u = (case limiter_state rl u of None \<Rightarrow> [] | Some s \<Rightarrow> failure_times s)"

definition lock_of :: "rate_limiter \<Rightarrow> pystr \<Rightarrow> rat option" where
  "lock_of rl u = (case limiter_state rl u of None \<Rightarrow> None | Some s \<Rightarrow> locked_until s)"

lemma check_open: "lock_of rl u = None \<Longrightarrow> check rl u now = (Inr (), rl)"
  by (auto simp: check_def lock_of_def split: option.splits)

lemma check_blocked:
  "lock_of rl u = Some t \<Longrightarrow> now < t \<Longrightarrow> check rl u now = (Inl (RateLimitedError (t - now)), rl)"
  by (auto simp: check_def lock_of_def split: option.splits)

lemma check_expired:
  "lock_of rl u = Some t \<Longrightarrow> t \<le> now \<Longrightarrow>
     \<exists>rl'. check rl u now = (Inr (), rl') \<and> times_of rl' u = [] \<and> lock_of rl' u = None
       \<and> (\<forall>v. v \<noteq> u \<longrightarrow> limiter_state rl' v = limiter_state rl v)"
  by (auto simp: check_def lock_of_def times_of_def split: option.splits)

lemma check_Inr_iff: "(\<exists>rl'. check rl u now = (Inr (), rl')) \<longleftrightarrow> (\<forall>t. lock_of rl u = Some t \<longrightarrow> t \<le> now)"
  by (auto simp: check_def lock_of_def split: option.splits)

lemma times_of_record_failure:
  "times_of (record_failure rl u now) u =
     filter (\<lambda>t. now - t < window_seconds rl) (times_of rl u) @ [now]"
  by (simp add: times_of_def record_failure_def fresh_username_state_def Let_def split: option.split)

lemma lock_of_record_failure:
  "lock_of (record_failure rl u now) u =
     (if max_attempts rl \<le> int (length (times_of (record_failure rl u now) u))
      then Some (now + lockout_seconds rl) else lock_of rl u)"
  by (simp add: times_of_def lock_of_def record_failure_def fresh_username_state_def Let_def
      split: option.split)

lemma record_failure_other:
  "v \<noteq> u \<Longrightarrow> limiter_state (record_failure rl u now) v = limiter_state rl v"
  by (simp add: record_failure_def Let_def)

lemma reset_same: "times_of (reset rl u) u = []" "lock_of (reset rl u) u = None"
  by (simp_all add: reset_def times_of_def lock_of_def)

lemma reset_other: "v \<noteq> u \<Longrightarrow> limiter_state (reset rl u) v = limiter_state rl v"
  by (simp add: reset_def)

lemma observe_other:
  "limiter_state rl' v = limiter_state rl v \<Longrightarrow> times_of rl' v = times_of rl v"
  "limiter_state rl' v = limiter_state rl v \<Longrightarrow> lock_of rl' v = lock_of rl v"
  by (simp_all add: times_of_def lock_of_def)

definition same_config :: "rate_limiter \<Rightarrow> rate_limiter \<Rightarrow> bool" where
  "same_config rl rl' \<longleftrightarrow> max_attempts rl' = max_attempts rl
     \<and> window_seconds rl' = window_seconds rl \<and> lockout_seconds rl' = lockout_seconds rl"

lemma check_config: "same_config rl (snd (check rl u now))"
  by (simp add: check_def same_config_def split: option.split)

lemma record_failure_config: "same_config rl (record_failure rl u now)"
  by (simp add: record_failure_def same_config_def Let_def)

lemma reset_config: "same_config rl (reset rl u)"
  by (simp add: reset_def same_config_def)

section \<open>The contract of the limiter\<close>

text \<open>
  What app.py relies on, over the two observations \<open>times\<close> (the failures still counted) and
  \<open>lock\<close> (the end of the current lockout): \<open>check\<close> refuses exactly while a lockout runs and
  starts clean when it is over, \<open>record\<close> keeps the failures of the window and locks at the
  limit, \<open>reset\<close> forgets, and no operation touches another username or the configuration.
\<close>

locale failed_auth_limiter =
  fixes chk :: "'s \<Rightarrow> 'u \<Rightarrow> rat \<Rightarrow> (exn + unit) \<times> 's"
    and rec :: "'s \<Rightarrow> 'u \<Rightarrow> rat \<Rightarrow> 's"
    and rst :: "'s \<Rightarrow> 'u \<Rightarrow> 's"
    and times :: "'s \<Rightarrow> 'u \<Rightarrow> rat list"
    and lock :: "'s \<Rightarrow> 'u \<Rightarrow> rat option"
    and limit :: "'s \<Rightarrow> int"
    and window :: "'s \<Rightarrow> rat"
    and lockout :: "'s \<Rightarrow> rat"
  assumes chk_open: "lock s u = None \<Longrightarrow> chk s u now = (Inr (), s)"
    and chk_locked: "lock s u = Some t \<Longrightarrow> now < t \<Longrightarrow>
      chk s u now = (Inl (RateLimitedError (t - now)), s)"
    and chk_over: "lock s u = Some t \<Longrightarrow> t \<le> now \<Longrightarrow>
      \<exists>s'. chk s u now = (Inr (), s') \<and> times s' u = [] \<and> lock s' u = None"
    and rec_times: "times (rec s u now) u = filter (\<lambda>t. now - t < window s) (times s u) @ [now]"
    and rec_lock: "lock (rec s u now) u =
      (if limit s \<le> int (length (times (rec s u now) u)) then Some (now + lockout s) else lock s u)"
    and rst_times: "times (rst s u) u = []"
    and rst_lock: "lock (rst s u) u = None"
    and chk_frame: "v \<noteq> u \<Longrightarrow> times (snd (chk s u now)) v = times s v"
      "v \<noteq> u \<Longrightarrow> lock (snd (chk s u now)) v = lock s v"
    and rec_frame: "v \<noteq> u \<Longrightarrow> times (rec s u now) v = times s v"
      "v \<noteq> u \<Longrightarrow> lock (rec s u now) v = lock s v"
    and rst_frame: "v \<noteq> u \<Longrightarrow> times (rst s u) v = times s v"
      "v \<noteq> u \<Longrightarrow> lock (rst s u) v = lock s v"
    and chk_config: "limit (snd (chk s u now)) = limit s"
      "window (snd (chk s u now)) = window s" "lockout (snd (chk s u now)) = lockout s"
    and rec_config: "limit (rec s u now) = limit s"
      "window (rec s u now) = window s" "lockout (rec s u now) = lockout s"
    and rst_config: "limit (rst s u) = limit s"
      "window (rst s u) = window s" "lockout (rst s u) = lockout s"
begin

lemmas config = chk_config rec_config rst_config

lemmas frame = chk_frame rec_frame rst_frame

definition gap :: "'s \<Rightarrow> rat" where
  "gap s = min (window s) (lockout s)"

lemma gap_config:
  "gap (snd (chk s u now)) = gap s" "gap (rec s u now) = gap s" "gap (rst s u) = gap s"
  by (simp_all add: gap_def config)

lemma chk_Inr_cases:
  assumes "chk s u now = (Inr (), s')"
  obtains (unlocked) "lock s u = None" and "s' = s"
    | (over) t where "lock s u = Some t" and "t \<le> now" and "times s' u = []" and "lock s' u = None"
proof (cases "lock s u")
  case None
  with assms chk_open show ?thesis by (intro unlocked) auto
next
  case (Some t)
  show ?thesis
  proof (cases "now < t")
    case True
    with chk_locked [OF Some] assms show ?thesis by simp
  next
    case False
    with chk_over [OF Some, of now] obtain s1
      where "chk s u now = (Inr (), s1)" "times s1 u = []" "lock s1 u = None" by auto
    with Some False assms show ?thesis by (intro over) auto
  qed
qed

lemma chk_Inl: "chk s u now = (Inl e, s') \<Longrightarrow> s' = s"
proof (cases "lock s u")
  case None
  assume "chk s u now = (Inl e, s')"
  with chk_open [OF None, of now] show ?thesis by simp
next
  case (Some t)
  assume c: "chk s u now = (Inl e, s')"
  show ?thesis
  proof (cases "now < t")
    case True
    with chk_locked [OF Some] c show ?thesis by simp
  next
    case False
    with chk_over [OF Some, of now] c show ?thesis by auto
  qed
qed

text \<open>
  The history invariant of one username, with at most \<open>k\<close> attempts admitted and not yet answered,
  \<open>n\<close> of them now: \<open>F\<close> is every failure recorded since the last reset, oldest first. Unlocked, the
  limiter counts a suffix of \<open>F\<close>, and all but \<open>k - 1\<close> of the failures it has forgotten are at least
  a gap old. Locked, \<open>p\<close> failures have come in since the lock was set, from attempts admitted
  before; the lock covers all others. The last conjunct is the budget.
\<close>

definition aged :: "'s \<Rightarrow> rat list \<Rightarrow> rat \<Rightarrow> nat \<Rightarrow> nat \<Rightarrow> bool" where
  "aged s F now k j \<longleftrightarrow> (\<forall>i. i + (k - 1) < j \<longrightarrow> F ! i + gap s \<le> now)"

definition counted :: "nat \<Rightarrow> 's \<Rightarrow> 'u \<Rightarrow> rat list \<Rightarrow> rat \<Rightarrow> bool" where
  "counted k s u F now \<longleftrightarrow> int (length (times s u)) < limit s
     \<and> (\<exists>j \<le> length F. times s u = drop j F \<and> aged s F now k j)"

definition covered :: "nat \<Rightarrow> 's \<Rightarrow> 'u \<Rightarrow> rat list \<Rightarrow> rat \<Rightarrow> nat \<Rightarrow> rat \<Rightarrow> bool" where
  "covered k s u F now n t \<longleftrightarrow> (\<exists>p. p + n < k \<and> int (length (times s u)) \<le> limit s + int p
     \<and> (\<forall>i. i + p < length F \<longrightarrow> F ! i + lockout s \<le> t)
     \<and> aged s F now k (length F - (nat (limit s) + p)))"

definition spacing :: "nat \<Rightarrow> 's \<Rightarrow> nat" where
  "spacing k s = nat (limit s) + 2 * (k - 1)"

definition history_ok :: "nat \<Rightarrow> 's \<Rightarrow> 'u \<Rightarrow> rat list \<Rightarrow> rat \<Rightarrow> nat \<Rightarrow> bool" where
  "history_ok k s u F now n \<longleftrightarrow>
     n \<le> k \<and> sorted F \<and> (\<forall>f \<in> set F. f \<le> now)
     \<and> (case lock s u of None \<Rightarrow> counted k s u F now | Some t \<Rightarrow> covered k s u F now n t)
     \<and> (\<forall>i. i + spacing k s < length F \<longrightarrow> gap s \<le> F ! (i + spacing k s) - F ! i)"

lemma aged_mono: "aged s F now k j \<Longrightarrow> now \<le> now' \<Longrightarrow> aged s F now' k j"
  unfolding aged_def by (meson order_trans)

lemma aged_snoc: "aged s F now k j \<Longrightarrow> j \<le> length F \<Longrightarrow> aged s (F @ [x]) now k j"
  by (simp add: aged_def nth_append)

lemma history_start:
  "0 < limit s \<Longrightarrow> times s u = [] \<Longrightarrow> lock s u = None \<Longrightarrow> n \<le> k \<Longrightarrow> history_ok k s u [] now n"
  by (simp add: history_ok_def counted_def aged_def)

lemma history_tick: "history_ok k s u F now n \<Longrightarrow> now \<le> now' \<Longrightarrow> history_ok k s u F now' n"
  unfolding history_ok_def counted_def covered_def
  by (auto split: option.splits intro: aged_mono order_trans; meson aged_mono)

lemma history_idle: "history_ok k s u F now n \<Longrightarrow> n' \<le> n \<Longrightarrow> history_ok k s u F now n'"
  unfolding history_ok_def covered_def
  by (auto split: option.splits) (meson add_le_mono le_refl order.strict_trans1)

lemma history_frame:
  assumes "history_ok k s u F now n"
    and "times s' u = times s u" and "lock s' u = lock s u"
    and "limit s' = limit s" and "window s' = window s" and "lockout s' = lockout s"
  shows "history_ok k s' u F now n"
  using assms
  by (simp add: history_ok_def counted_def covered_def aged_def spacing_def gap_def split: option.splits)

lemma history_good: "0 < limit s \<Longrightarrow> n \<le> k \<Longrightarrow> history_ok k (rst s u) u [] now n"
  by (intro history_start) (simp_all add: rst_times rst_lock config)

lemma history_admit:
  assumes h: "history_ok k s u F now n" and adm: "chk s u now = (Inr (), s')" and m: "0 < limit s"
    and free: "n < k"
  shows "history_ok k s' u F now (Suc n)"
  using adm
proof (cases rule: chk_Inr_cases)
  case unlocked
  with h free show ?thesis by (simp add: history_ok_def)
next
  case (over t)
  have cfg: "limit s' = limit s" "window s' = window s" "lockout s' = lockout s"
    using chk_config [of s u now] adm by simp_all
  then have g: "gap s' = gap s" "spacing k s' = spacing k s" by (simp_all add: gap_def spacing_def)
  obtain p where p: "p + n < k" "\<forall>i. i + p < length F \<longrightarrow> F ! i + lockout s \<le> t"
    using h over(1) by (auto simp: history_ok_def covered_def)
  have "F ! i + gap s \<le> now" if "i + (k - 1) < length F" for i
  proof -
    from that p have "F ! i + lockout s \<le> t" by simp
    moreover have "gap s \<le> lockout s" by (simp add: gap_def)
    ultimately show ?thesis using over(2) by linarith
  qed
  then have "counted k s' u F now"
    unfolding counted_def using m
    by (intro conjI exI [of _ "length F"]) (simp_all add: over(3) cfg aged_def g)
  with h free show ?thesis by (simp add: history_ok_def over(4) g)
qed

text \<open>A request that ends between \<open>check\<close> and the attempt needs no room: a lock that has run out
  leaves less than \<open>k\<close> attempts in flight.\<close>

lemma history_dismiss:
  assumes h: "history_ok k s u F now n" and c: "chk s u now = (q, s')" and m: "0 < limit s"
  shows "history_ok k s' u F now n"
proof (cases q)
  case (Inl e)
  with h c chk_Inl show ?thesis by blast
next
  case (Inr v)
  then have adm: "chk s u now = (Inr (), s')" using c by simp
  then show ?thesis
  proof (cases rule: chk_Inr_cases)
    case unlocked
    with h show ?thesis by simp
  next
    case (over t)
    then have "n < k" using h by (auto simp: history_ok_def covered_def)
    then have "history_ok k s' u F now (Suc n)" by (rule history_admit [OF h adm m])
    then show ?thesis by (rule history_idle) simp
  qed
qed

lemma spaced_snoc:
  fixes g now :: rat
  assumes "\<And>i. i + N < length F \<Longrightarrow> g \<le> F ! (i + N) - F ! i"
    and "\<And>i. i + N = length F \<Longrightarrow> 0 < N \<Longrightarrow> F ! i + g \<le> now" and "0 < N"
    and "i + N < length (F @ [now])"
  shows "g \<le> (F @ [now]) ! (i + N) - (F @ [now]) ! i"
proof (cases "i + N < length F")
  case True
  with assms(1) show ?thesis by (simp add: nth_append)
next
  case False
  with assms(4) have "i + N = length F" by simp
  with assms(2) [of i] assms(3) show ?thesis by (simp add: nth_append le_diff_eq add.commute)
qed

lemma history_bad_counted:
  assumes h: "history_ok k s u F now (Suc n)" and m: "0 < limit s" and free: "lock s u = None"
  shows "history_ok k (rec s u now) u (F @ [now]) now n"
proof -
  let ?s = "rec s u now" and ?F = "F @ [now]" and ?m = "nat (limit s)"
  from h free have srt: "sorted F" and past: "\<forall>f\<in>set F. f \<le> now" and k: "Suc n \<le> k"
    and short: "int (length (times s u)) < limit s"
    and spaced: "\<And>i. i + spacing k s < length F \<Longrightarrow> gap s \<le> F ! (i + spacing k s) - F ! i"
    by (auto simp: history_ok_def counted_def)
  from h free obtain j where j: "j \<le> length F" "times s u = drop j F" "aged s F now k j"
    by (auto simp: history_ok_def counted_def)
  obtain d where d: "d \<le> length (times s u)"
      "filter (\<lambda>t. now - t < window s) (times s u) = drop d (times s u)"
      "\<forall>i<d. \<not> now - times s u ! i < window s"
    by (rule sorted_filter_eq_drop [of "times s u" "\<lambda>t. now - t < window s"])
      (use srt j in \<open>auto simp: sorted_wrt_drop\<close>)
  have kept: "times ?s u = drop (j + d) ?F"
    using d(1) j(1) by (simp add: rec_times d(2) add.commute) (simp add: j(2) add.commute)
  have gap: "gap s \<le> window s" "gap ?s = gap s" "spacing k ?s = spacing k s"
    by (simp_all add: gap_def spacing_def config)
  have jd: "j + d \<le> length F" and jm: "length F < j + ?m"
    using d(1) j(1,2) short m by simp_all
  have forgotten: "F ! i + gap s \<le> now" if "i + (k - 1) < j + d" for i
  proof (cases "d = 0")
    case True
    with that j(3) show ?thesis by (simp add: aged_def)
  next
    case False
    then have "\<not> now - times s u ! (d - 1) < window s" using d(3) by simp
    then have "F ! (j + d - 1) + gap s \<le> now"
      using gap(1) False jd j(2) by simp
    moreover have "F ! i \<le> F ! (j + d - 1)"
      using that jd by (intro sorted_nth_mono [OF srt]) auto
    ultimately show ?thesis by simp
  qed
  then have aged: "aged ?s ?F now k (j + d)"
    using jd by (auto simp: aged_def gap nth_append)
  have lockcase: "case lock ?s u of None \<Rightarrow> counted k ?s u ?F now | Some t \<Rightarrow> covered k ?s u ?F now n t"
  proof (cases "limit s \<le> int (length (times ?s u))")
    case True
    have "covered k ?s u ?F now n (now + lockout s)"
      unfolding covered_def
    proof (intro exI [of _ 0] conjI)
      show "int (length (times ?s u)) \<le> limit ?s + int 0"
        using jm m j(1) d(1) kept by (simp add: config)
      show "\<forall>i. i + 0 < length ?F \<longrightarrow> ?F ! i + lockout ?s \<le> now + lockout s"
        using past by (auto simp: config nth_append less_Suc_eq)
      show "aged ?s ?F now k (length ?F - (nat (limit ?s) + 0))"
        using aged jm by (auto simp: aged_def config)
    qed (use k in simp)
    with True show ?thesis by (simp add: rec_lock config)
  next
    case False
    with kept aged jd free show ?thesis
      by (auto simp: rec_lock config counted_def intro!: exI [of _ "j + d"])
  qed
  have "gap s \<le> ?F ! (i + spacing k s) - ?F ! i" if "i + spacing k s < length ?F" for i
  proof (rule spaced_snoc [OF spaced _ _ that])
    show "0 < spacing k s" using m by (simp add: spacing_def)
    show "F ! i' + gap s \<le> now" if "i' + spacing k s = length F" for i'
      using that jm j(3) k by (auto simp: spacing_def aged_def)
  qed
  with srt past k lockcase show ?thesis
    by (auto simp: history_ok_def gap sorted_append)
qed

lemma history_bad_covered:
  assumes h: "history_ok k s u F now (Suc n)" and m: "0 < limit s" and locked: "lock s u = Some t"
  shows "history_ok k (rec s u now) u (F @ [now]) now n"
proof -
  let ?s = "rec s u now" and ?F = "F @ [now]" and ?m = "nat (limit s)"
  from h locked have srt: "sorted F" and past: "\<forall>f\<in>set F. f \<le> now"
    and spaced: "\<And>i. i + spacing k s < length F \<Longrightarrow> gap s \<le> F ! (i + spacing k s) - F ! i"
    by (auto simp: history_ok_def)
  from h locked obtain p where p: "p + Suc n < k" "\<And>i. i + p < length F \<Longrightarrow> F ! i + lockout s \<le> t"
    and few: "int (length (times s u)) \<le> limit s + int p" and aged: "aged s F now k (length F - (?m + p))"
    by (auto simp: history_ok_def covered_def)
  have gap: "gap ?s = gap s" "spacing k ?s = spacing k s"
    by (simp_all add: gap_def spacing_def config)
  have aged': "aged ?s ?F now k (length ?F - (?m + Suc p))"
    using aged by (auto simp: aged_def gap nth_append)
  have "int (length (filter (\<lambda>t. now - t < window s) (times s u))) \<le> int (length (times s u))"
    by simp
  with few have few': "int (length (filter (\<lambda>t. now - t < window s) (times s u))) \<le> limit s + int p"
    by (rule order_trans [rotated])
  obtain t' where t': "lock ?s u = Some t'" "t' = t \<or> t' = now + lockout s"
    using locked by (cases "limit s \<le> int (length (times ?s u))") (simp_all add: rec_lock)
  have "?F ! i + lockout s \<le> t'" if "i + Suc p < length ?F" for i
    using t'(2)
  proof
    assume "t' = t"
    with p(2) [of i] that show ?thesis by (simp add: nth_append)
  next
    assume "t' = now + lockout s"
    with past that show ?thesis by (simp add: nth_append)
  qed
  then have cov: "covered k ?s u ?F now n t'"
    unfolding covered_def using p(1) aged' few'
    by (intro exI [of _ "Suc p"]) (simp add: config rec_times)
  have "gap s \<le> ?F ! (i + spacing k s) - ?F ! i" if "i + spacing k s < length ?F" for i
  proof (rule spaced_snoc [OF spaced _ _ that])
    show "0 < spacing k s" using m by (simp add: spacing_def)
    show "F ! i' + gap s \<le> now" if "i' + spacing k s = length F" for i'
      using that aged p(1) by (auto simp: spacing_def aged_def)
  qed
  with srt past p(1) cov show ?thesis
    by (auto simp: history_ok_def gap t'(1) sorted_append)
qed

lemma history_bad:
  "history_ok k s u F now (Suc n) \<Longrightarrow> 0 < limit s \<Longrightarrow> history_ok k (rec s u now) u (F @ [now]) now n"
  by (cases "lock s u") (auto intro: history_bad_counted history_bad_covered)

lemma history_short:
  "history_ok k s u F now n \<Longrightarrow>
     int (length (times s u)) < limit s + (if lock s u = None then 0 else int k)"
  by (auto simp: history_ok_def counted_def covered_def split: option.splits)

lemma history_spacing:
  "history_ok k s u F now n \<Longrightarrow> i + (nat (limit s) + 2 * (k - 1)) < length F \<Longrightarrow>
     min (window s) (lockout s) \<le> F ! (i + (nat (limit s) + 2 * (k - 1))) - F ! i"
  by (simp add: history_ok_def gap_def spacing_def)

end

interpretation rl: failed_auth_limiter check record_failure reset times_of lock_of
    max_attempts window_seconds lockout_seconds
proof (unfold_locales, goal_cases)
  case (3 s u t now)
  then show ?case using check_expired by blast
next
  case (8 v u s now)
  then show ?case by (simp add: check_def times_of_def split: option.split)
next
  case (9 v u s now)
  then show ?case by (simp add: check_def lock_of_def split: option.split)
qed (use check_config record_failure_config reset_config in
    \<open>auto simp: check_open check_blocked times_of_record_failure lock_of_record_failure reset_same
      same_config_def record_failure_other reset_other intro: observe_other\<close>)

section \<open>Pruning loses nothing\<close>

text \<open>Failures of one username, recorded one after another on a new limiter.\<close>

definition after_failures :: "int \<Rightarrow> rat \<Rightarrow> rat \<Rightarrow> pystr \<Rightarrow> rat list \<Rightarrow> rate_limiter" where
  "after_failures m w l u ts = foldl (\<lambda>rl t. record_failure rl u t) (new_rate_limiter m w l) ts"

lemma after_failures_snoc:
  "after_failures m w l u (ts @ [t]) = record_failure (after_failures m w l u ts) u t"
  by (simp add: after_failures_def)

lemma after_failures_config:
  "max_attempts (after_failures m w l u ts) = m" "window_seconds (after_failures m w l u ts) = w"
  "lockout_seconds (after_failures m w l u ts) = l"
proof (induction ts rule: rev_induct)
  case Nil
  show "max_attempts (after_failures m w l u []) = m" "window_seconds (after_failures m w l u []) = w"
    "lockout_seconds (after_failures m w l u []) = l"
    by (simp_all add: after_failures_def new_rate_limiter_def)
next
  case (snoc t ts)
  then show "max_attempts (after_failures m w l u (ts @ [t])) = m"
    "window_seconds (after_failures m w l u (ts @ [t])) = w"
    "lockout_seconds (after_failures m w l u (ts @ [t])) = l"
    using record_failure_config [of "after_failures m w l u ts" u t]
    by (simp_all add: after_failures_snoc same_config_def)
qed

lemma window_times:
  assumes "sorted ts" and "0 < w"
  shows "times_of (after_failures m w l u ts) u = filter (\<lambda>t. last ts - t < w) ts"
  using assms(1)
proof (induction ts rule: rev_induct)
  case Nil
  show ?case by (simp add: after_failures_def new_rate_limiter_def times_of_def)
next
  case (snoc t ts)
  then have IH: "times_of (after_failures m w l u ts) u = filter (\<lambda>t. last ts - t < w) ts"
    and last: "ts \<noteq> [] \<Longrightarrow> last ts \<le> t"
    by (auto simp: sorted_append)
  have "(last ts - t' < w \<and> t - t' < w) = (t - t' < w)" if "t' \<in> set ts" for t'
  proof -
    from that have "ts \<noteq> []" by auto
    with last show ?thesis by auto
  qed
  then have "filter (\<lambda>t'. t - t' < w) (filter (\<lambda>t. last ts - t < w) ts) = filter (\<lambda>t'. t - t' < w) ts"
    by (auto intro: filter_cong)
  with IH assms(2) show ?case
    by (simp add: after_failures_snoc times_of_record_failure after_failures_config)
qed

text \<open>
  C30: \<open>record_failure\<close> throws old failures away as it goes, and that changes nothing: after any
  failures in order of time the limiter lists exactly those of the whole history that are younger
  than the window, and it locks exactly when there are \<open>max_attempts\<close> of them.
\<close>

theorem sliding_window_exact:
  assumes "sorted (ts @ [t])" and "0 < w"
  shows "times_of (after_failures m w l u (ts @ [t])) u = filter (\<lambda>t'. t - t' < w) (ts @ [t])
    \<and> lock_of (after_failures m w l u (ts @ [t])) u =
        (if m \<le> int (length (filter (\<lambda>t'. t - t' < w) (ts @ [t]))) then Some (t + l)
         else lock_of (after_failures m w l u ts) u)"
  using window_times [OF assms, of m l u] lock_of_record_failure [of "after_failures m w l u ts" u t]
  by (simp add: after_failures_snoc after_failures_config)

theorem sliding_window_exact_witness:
  "times_of (after_failures 3 900 900 (lit ''u'') [0, 500, 1000]) (lit ''u'') = [500, 1000]"
  using sliding_window_exact [of "[0, 500]" 1000 900 3 900 "lit ''u''"] by simp

end
