(* ===== verification/Config.thy ===== *)
theory Config
  imports Py_Text
begin

text \<open>
  config.py: the settings, their defaults and the \<open>gt=0\<close> constraints of their fields, and the cached
  accessor. Reading the environment and the \<open>.env\<close> file is pydantic-settings' work: the values it
  produces are the argument of \<open>make_settings\<close>.
\<close>

record settings =
  broker_jwks_url :: pystr
  broker_issuer :: pystr
  expected_audience :: pystr
  kinit_bin :: pystr
  krb5_config :: pystr
  default_realm :: pystr
  default_lifetime :: pystr
  default_renewable_lifetime :: pystr
  ccache_tmp_root :: pystr
  kinit_timeout_seconds :: int
  cern_get_keytab_bin :: pystr
  cern_get_keytab_timeout_seconds :: int
  failed_auth_max_attempts :: int
  failed_auth_window_seconds :: int
  failed_auth_lockout_seconds :: int
  jwks_cache_ttl_seconds :: int
  log_level :: pystr

definition default_settings :: settings where
  "default_settings = \<lparr>
     broker_jwks_url = lit ''http://localhost:8080/.well-known/jwks.json'',
     broker_issuer = lit ''https://mcp.af.uchicago.edu'',
     expected_audience = lit ''krb5-token-service'',
     kinit_bin = lit ''kinit'',
     krb5_config = lit ''/app/etc/krb5.conf'',
     default_realm = lit ''CERN.CH'',
     default_lifetime = lit ''24h'',
     default_renewable_lifetime = lit ''7d'',
     ccache_tmp_root = lit ''/tmp/krb5cc'',
     kinit_timeout_seconds = 30,
     cern_get_keytab_bin = lit ''/app/etc/cern-get-keytab'',
     cern_get_keytab_timeout_seconds = 60,
     failed_auth_max_attempts = 3,
     failed_auth_window_seconds = 900,
     failed_auth_lockout_seconds = 900,
     jwks_cache_ttl_seconds = 300,
     log_level = lit ''INFO''\<rparr>"

text \<open>The fields declared with \<open>Field(..., gt=0)\<close>.\<close>

definition settings_valid :: "settings \<Rightarrow> bool" where
  "settings_valid s \<longleftrightarrow> 0 < kinit_timeout_seconds s \<and> 0 < cern_get_keytab_timeout_seconds s
     \<and> 0 < failed_auth_max_attempts s \<and> 0 < failed_auth_window_seconds s
     \<and> 0 < failed_auth_lockout_seconds s"

definition make_settings :: "settings \<Rightarrow> exn + settings" where
  "make_settings s = (if settings_valid s then Inr s else Inl (ValueErr (lit ''validation error'')))"

text \<open>\<open>get_settings\<close> is under \<open>lru_cache\<close>: the first value built is kept; an exception is not.\<close>

definition get_settings :: "settings \<Rightarrow> settings option \<Rightarrow> (exn + settings) \<times> settings option" where
  "get_settings env_values cached =
     (case cached of
        Some s \<Rightarrow> (Inr s, cached)
      | None \<Rightarrow> (case make_settings env_values of
                  Inl e \<Rightarrow> (Inl e, None)
                | Inr s \<Rightarrow> (Inr s, Some s)))"

lemma default_settings_valid: "make_settings default_settings = Inr default_settings"
  by (simp add: make_settings_def settings_valid_def default_settings_def)

lemma make_settings_valid: "make_settings s = Inr s' \<Longrightarrow> s' = s \<and> settings_valid s"
  by (simp add: make_settings_def split: if_splits)

end
