(* ===== verification/Identity.thy ===== *)
theory Identity
  imports Runtime Ratelimit Config
begin

text \<open>
  The state of the running service, and identity.py: the JWKS cache and the verification of the
  broker's identity token. PyJWT and httpx are third-party code and enter as the parameters
  \<open>jwt_lib\<close> and \<open>http_lib\<close>; \<open>time.monotonic()\<close> readings are arguments.
\<close>

section \<open>The state of the service\<close>

record jwks_entry =
  keys :: json
  fetched_at :: rat

record service =
  sv_world :: world
  sv_limiter :: rate_limiter
  sv_jwks :: "pystr \<rightharpoonup> jwks_entry"

type_synonym 'a call = "(service, 'a) act"

definition on_world :: "'a op \<Rightarrow> 'a call" where
  "on_world m sv = (case m (sv_world sv) of (r, w) \<Rightarrow> (r, sv\<lparr>sv_world := w\<rparr>))"

section \<open>The libraries\<close>

record http_response =
  status_error :: "exn option"
  body_json :: "exn + json"

record http_lib =
  http_get :: "pystr \<Rightarrow> exn + http_response"

text \<open>\<open>algorithms\<close>, \<open>audience\<close>, \<open>issuer\<close> and \<open>options\<close> of \<open>jwt.decode\<close>.\<close>

record decode_args =
  algorithms :: "pystr list"
  audience :: pystr
  issuer :: pystr
  verify_exp :: bool
  require :: "pystr list"

datatype public_key = RSAPublicKey int int

text \<open>PyJWT rejects a header whose \<open>kid\<close> is not a string, so \<open>header.get("kid")\<close> is a string or
  nothing. \<open>printable\<close> is the Unicode property that \<open>repr\<close> consults beyond ASCII.\<close>

record jwt_lib =
  unverified_kid :: "pystr \<Rightarrow> exn + pystr option"
  from_jwk :: "json \<Rightarrow> exn + public_key"
  jwt_decode :: "pystr \<Rightarrow> public_key \<Rightarrow> decode_args \<Rightarrow> exn + event_dict"
  decode_unverified :: "pystr \<Rightarrow> exn + event_dict"
  printable :: "int \<Rightarrow> bool"

section \<open>The JWKS cache\<close>

text \<open>\<open>resp.json()["keys"]\<close> and \<open>len(keys)\<close> on whatever JSON value they meet.\<close>

definition item_keys :: "json \<Rightarrow> exn + json" where
  "item_keys j =
     (case j of
        JObj d \<Rightarrow> (case map_of d (lit ''keys'') of None \<Rightarrow> Inl (KeyErr ([39] @ lit ''keys'' @ [39])) | Some v \<Rightarrow> Inr v)
      | _ \<Rightarrow> Inl (TypeErr (lit ''not subscriptable by a string'')))"

definition py_len :: "json \<Rightarrow> exn + nat" where
  "py_len j =
     (case j of
        JArr l \<Rightarrow> Inr (length l) | JObj d \<Rightarrow> Inr (length d) | JStr s \<Rightarrow> Inr (length s)
      | _ \<Rightarrow> Inl (TypeErr (lit ''object has no len()'')))"

definition fetch_try :: "http_lib \<Rightarrow> pystr \<Rightarrow> exn + json" where
  "fetch_try http url =
     (case http_get http url of Inl e \<Rightarrow> Inl e | Inr resp \<Rightarrow>
      case status_error resp of Some e \<Rightarrow> Inl e | None \<Rightarrow>
      case body_json resp of Inl e \<Rightarrow> Inl e | Inr j \<Rightarrow> item_keys j)"

definition fetch_jwks :: "http_lib \<Rightarrow> pystr \<Rightarrow> json op" where
  "fetch_jwks http jwks_url =
     (case fetch_try http jwks_url of
        Inr ks \<Rightarrow> ret ks
      | Inl e \<Rightarrow>
          andthen (log_op LOG_ERROR ''jwks_fetch_failed''
                     [(lit ''url'', JStr jwks_url), (lit ''error'', JStr (exn_str e))])
            (\<lambda>_. throw (HTTPException 502 (lit ''Unable to reach JWKS endpoint: '' @ jwks_url) [])))"

definition fresh_entry :: "settings \<Rightarrow> jwks_entry option \<Rightarrow> rat \<Rightarrow> json option" where
  "fresh_entry s entry now =
     (case entry of
        None \<Rightarrow> None
      | Some en \<Rightarrow> if now - fetched_at en \<le> of_int (jwks_cache_ttl_seconds s) then Some (keys en) else None)"

text \<open>The two ends of the refresh: a failed fetch with an entry to fall back on, and a new entry.\<close>

definition serve_stale :: "pystr \<Rightarrow> jwks_entry option \<Rightarrow> exn \<Rightarrow> json call option" where
  "serve_stale url entry e =
     (case entry of
        None \<Rightarrow> None
      | Some en \<Rightarrow>
          if is_HTTPException e
          then Some (andthen (on_world (log_op LOG_WARNING ''jwks_refresh_failed_serving_stale''
                                          [(lit ''url'', JStr url)]))
                       (\<lambda>_. ret (keys en)))
          else None)"

definition cache_put :: "pystr \<Rightarrow> jwks_entry \<Rightarrow> unit call" where
  "cache_put url entry sv = (Inr (), sv\<lparr>sv_jwks := (sv_jwks sv)(url \<mapsto> entry)\<rparr>)"

definition store_jwks :: "pystr \<Rightarrow> rat \<Rightarrow> json \<Rightarrow> json call" where
  "store_jwks url now ks =
     andthen (cache_put url \<lparr>keys = ks, fetched_at = now\<rparr>) (\<lambda>_.
       case py_len ks of
         Inl e \<Rightarrow> throw e
       | Inr n \<Rightarrow>
           andthen (on_world (log_op LOG_DEBUG ''jwks_cache_refreshed''
                                [(lit ''url'', JStr url), (lit ''key_count'', JNum (of_nat n))]))
             (\<lambda>_. ret ks))"

text \<open>The body of \<open>async with _get_jwks_lock(url)\<close>, then \<open>get_jwks\<close>; \<open>now0\<close> and \<open>now1\<close> are its
  two clock readings.\<close>

definition get_jwks_locked :: "http_lib \<Rightarrow> settings \<Rightarrow> rat \<Rightarrow> json call" where
  "get_jwks_locked http s now =
     reading (\<lambda>sv.
       let url = broker_jwks_url s; entry = sv_jwks sv url in
       case fresh_entry s entry now of
         Some ks \<Rightarrow> ret ks
       | None \<Rightarrow> try_else (on_world (fetch_jwks http url)) (serve_stale url entry) (store_jwks url now))"

definition get_jwks :: "http_lib \<Rightarrow> settings \<Rightarrow> rat \<Rightarrow> rat \<Rightarrow> json call" where
  "get_jwks http s now0 now1 =
     reading (\<lambda>sv.
       case fresh_entry s (sv_jwks sv (broker_jwks_url s)) now0 of
         Some ks \<Rightarrow> ret ks
       | None \<Rightarrow> get_jwks_locked http s now1)"

section \<open>Key selection\<close>

text \<open>\<open>JNull\<close> is Python's \<open>None\<close>: no key. Anything but a list of objects raises what Python raises.\<close>

fun find_kid :: "json list \<Rightarrow> pystr \<Rightarrow> exn + json" where
  "find_kid [] kid = Inr JNull"
| "find_kid (JObj d # ks) kid =
     (if map_of d (lit ''kid'') = Some (JStr kid) then Inr (JObj d) else find_kid ks kid)"
| "find_kid (k # ks) kid = Inl (AttributeErr (lit ''get''))"

definition select_jwk :: "json \<Rightarrow> pystr option \<Rightarrow> exn + json" where
  "select_jwk ks kid =
     (case kid of
        Some k \<Rightarrow>
          (case ks of
             JArr l \<Rightarrow> find_kid l k
           | JObj d \<Rightarrow> if d = [] then Inr JNull else Inl (AttributeErr (lit ''get''))
           | JStr t \<Rightarrow> if t = [] then Inr JNull else Inl (AttributeErr (lit ''get''))
           | _ \<Rightarrow> Inl (TypeErr (lit ''object is not iterable'')))
      | None \<Rightarrow>
          (case ks of
             JArr [k] \<Rightarrow> Inr k
           | JObj [kv] \<Rightarrow> Inl (KeyErr (lit ''0''))
           | JStr [ch] \<Rightarrow> Inr (JStr [ch])
           | _ \<Rightarrow> map_sum id (\<lambda>_. JNull) (py_len ks)))"

section \<open>Token verification\<close>

text \<open>\<open>repr\<close> of a string.\<close>

definition hex_digit :: "nat \<Rightarrow> int" where
  "hex_digit n = (if n < 10 then 48 + int n else 87 + int n)"

definition hex_code :: "nat \<Rightarrow> nat \<Rightarrow> pystr" where
  "hex_code width n = rev (map (\<lambda>i. hex_digit (n div 16 ^ i mod 16)) [0..<width])"

definition repr_char :: "(int \<Rightarrow> bool) \<Rightarrow> int \<Rightarrow> int \<Rightarrow> pystr" where
  "repr_char pr quote ch =
     (if ch = quote \<or> ch = 92 then [92, ch]
      else if ch = 9 then lit [CHR 0x5C, CHR ''t'']
      else if ch = 10 then lit [CHR 0x5C, CHR ''n'']
      else if ch = 13 then lit [CHR 0x5C, CHR ''r'']
      else if (32 \<le> ch \<and> ch < 127) \<or> (128 \<le> ch \<and> pr ch) then [ch]
      else if ch < 256 then lit [CHR 0x5C, CHR ''x''] @ hex_code 2 (nat ch)
      else if ch < 65536 then lit [CHR 0x5C, CHR ''u''] @ hex_code 4 (nat ch)
      else lit [CHR 0x5C, CHR ''U''] @ hex_code 8 (nat ch))"

definition repr_str :: "(int \<Rightarrow> bool) \<Rightarrow> pystr \<Rightarrow> pystr" where
  "repr_str pr s =
     (let quote = (if 39 \<in> set s \<and> 34 \<notin> set s then 34 else 39)
      in [quote] @ concat (map (repr_char pr quote) s) @ [quote])"

definition repr_kid :: "(int \<Rightarrow> bool) \<Rightarrow> pystr option \<Rightarrow> pystr" where
  "repr_kid pr kid = (case kid of None \<Rightarrow> lit ''None'' | Some k \<Rightarrow> repr_str pr k)"

definition decode_args_of :: "settings \<Rightarrow> decode_args" where
  "decode_args_of s = \<lparr>algorithms = [lit ''RS256''], audience = expected_audience s,
     issuer = broker_issuer s, verify_exp = True, require = [lit ''exp'', lit ''iat'', lit ''sub'']\<rparr>"

text \<open>The \<open>try\<close> of \<open>verify_broker_token\<close>: the claims, or the text of \<open>error\<close> when no key matched.\<close>

definition verify_try :: "jwt_lib \<Rightarrow> settings \<Rightarrow> pystr \<Rightarrow> json \<Rightarrow> exn + (pystr + event_dict)" where
  "verify_try jwt s token ks =
     (case unverified_kid jwt token of Inl e \<Rightarrow> Inl e | Inr kid \<Rightarrow>
      case select_jwk ks kid of Inl e \<Rightarrow> Inl e | Inr key_data \<Rightarrow>
      if key_data = JNull
      then Inr (Inl (lit ''no JWKS key matches token kid='' @ repr_kid (printable jwt) kid))
      else case from_jwk jwt key_data of Inl e \<Rightarrow> Inl e | Inr pk \<Rightarrow>
           case jwt_decode jwt token pk (decode_args_of s) of
             Inl e \<Rightarrow> Inl e | Inr claims \<Rightarrow> Inr (Inr claims))"

definition token_refused :: "pystr \<Rightarrow> 'a call" where
  "token_refused error =
     andthen (on_world (log_op LOG_WARNING ''jwt_validation_failed'' [(lit ''error'', JStr error)]))
       (\<lambda>_. throw (HTTPException 401 (lit ''Invalid or expired token'')
                     [(lit ''WWW-Authenticate'', lit ''Bearer'')]))"

definition verify_broker_token ::
    "http_lib \<Rightarrow> jwt_lib \<Rightarrow> settings \<Rightarrow> rat \<Rightarrow> rat \<Rightarrow> pystr \<Rightarrow> event_dict call" where
  "verify_broker_token http jwt s now0 now1 token =
     andthen (get_jwks http s now0 now1) (\<lambda>ks.
       case verify_try jwt s token ks of
         Inl e \<Rightarrow> if is_PyJWTError e \<or> is_ValueError e \<or> is_KeyError e then token_refused (exn_str e)
                  else throw e
       | Inr (Inl error) \<Rightarrow> token_refused error
       | Inr (Inr claims) \<Rightarrow> ret claims)"

definition peek_sub :: "jwt_lib \<Rightarrow> pystr \<Rightarrow> json" where
  "peek_sub jwt token =
     (case decode_unverified jwt token of
        Inl e \<Rightarrow> JStr (lit ''<unparseable>'')
      | Inr payload \<Rightarrow> (case map_of payload (lit ''sub'') of
                          None \<Rightarrow> JStr (lit ''<unknown>'') | Some v \<Rightarrow> v))"

end
