(* ===== verification/Py_Datetime.thy ===== *)
theory Py_Datetime
  imports Py_Text
begin

text \<open>
  Timezone-aware UTC datetimes as the service uses them: \<open>datetime.fromtimestamp(t, tz=UTC)\<close> on
  whole seconds and \<open>isoformat()\<close>. The calendar computation is CPython's \<open>_ord2ymd\<close>.
\<close>

datatype datetime = DateTimeUTC (epoch: int)

text \<open>Years 1 to 9999; beyond the platform's \<open>time_t\<close> the class raises \<open>OverflowError\<close>.\<close>

definition fromtimestamp_utc :: "int \<Rightarrow> exn + datetime" where
  "fromtimestamp_utc t =
     (if t < - (2 ^ 63) \<or> 2 ^ 63 \<le> t then Inl (OverflowErr (lit ''timestamp out of range''))
      else if t < -62135596800 \<or> 253402300799 < t then Inl (ValueErr (lit ''year is out of range''))
      else Inr (DateTimeUTC t))"

definition days_in_month :: "int list" where
  "days_in_month = [0, 31, 28, 31, 30, 31, 30, 31, 31, 30, 31, 30, 31]"

definition days_before_month :: "int list" where
  "days_before_month = [0, 0, 31, 59, 90, 120, 151, 181, 212, 243, 273, 304, 334]"

definition month_day :: "bool \<Rightarrow> int \<Rightarrow> int \<times> int" where
  "month_day leap n =
     (let month = (n + 50) div 32;
          preceding = days_before_month ! nat month + (if 2 < month \<and> leap then 1 else 0)
      in if n < preceding
         then (let month' = month - 1;
                   p = preceding - (days_in_month ! nat month' + (if month' = 2 \<and> leap then 1 else 0))
               in (month', n - p + 1))
         else (month, n - preceding + 1))"

definition ord2ymd :: "int \<Rightarrow> int \<times> int \<times> int" where
  "ord2ymd ordinal =
     (let n = ordinal - 1;
          n400 = n div 146097; r400 = n mod 146097;
          n100 = r400 div 36524; r100 = r400 mod 36524;
          n4 = r100 div 1461; r4 = r100 mod 1461;
          n1 = r4 div 365; r1 = r4 mod 365;
          year = n400 * 400 + 1 + n100 * 100 + n4 * 4 + n1
      in if n1 = 4 \<or> n100 = 4 then (year - 1, 12, 31)
         else (year, month_day (n1 = 3 \<and> (n4 \<noteq> 24 \<or> n100 = 3)) r1))"

definition pad2 :: "int \<Rightarrow> pystr" where
  "pad2 n = [48 + n div 10, 48 + n mod 10]"

definition pad4 :: "int \<Rightarrow> pystr" where
  "pad4 n = pad2 (n div 100) @ pad2 (n mod 100)"

definition isoformat :: "datetime \<Rightarrow> pystr" where
  "isoformat d =
     (let t = epoch d; s = t mod 86400; (y, m, dd) = ord2ymd (t div 86400 + 719163)
      in pad4 y @ lit ''-'' @ pad2 m @ lit ''-'' @ pad2 dd @ lit ''T''
         @ pad2 (s div 3600) @ lit '':'' @ pad2 (s mod 3600 div 60) @ lit '':'' @ pad2 (s mod 60)
         @ lit ''+00:00'')"

text \<open>Aware datetimes are ordered by the instant they denote.\<close>

instantiation datetime :: linorder
begin

definition less_eq_datetime :: "datetime \<Rightarrow> datetime \<Rightarrow> bool" where
  "less_eq_datetime a b \<longleftrightarrow> epoch a \<le> epoch b"

definition less_datetime :: "datetime \<Rightarrow> datetime \<Rightarrow> bool" where
  "less_datetime a b \<longleftrightarrow> epoch a < epoch b"

instance
proof
  fix a b :: datetime
  show "a \<le> b \<Longrightarrow> b \<le> a \<Longrightarrow> a = b"
    by (cases a; cases b) (simp add: less_eq_datetime_def)
qed (auto simp: less_eq_datetime_def less_datetime_def)

end

lemma isoformat_example: "isoformat (DateTimeUTC 1709210096) = lit ''2024-02-29T12:34:56+00:00''"
  by code_simp

end
