(* ===== verification/Ccache.thy ===== *)
theory Ccache
  imports Py_Datetime
begin

text \<open>
  ccache.py: reading the ticket-granting ticket out of a credential cache. pykrb5 is a
  third-party library, so what it returns for the bytes of a cache file is the parameter
  \<open>krb5_lib\<close>: the context, the default principal, and the credentials in iteration order, each
  of which may be an exception (iteration can fail part-way). What \<open>read_ccache\<close> does with
  them is modelled in full.
\<close>

record krb5_principal =
  principal_realm :: bytes
  principal_str :: "exn + pystr"

record ticket_times =
  endtime :: int
  renew_till :: int

record krb5_cred =
  server_realm :: bytes
  server_str :: "exn + pystr"
  cred_times :: ticket_times

record krb5_lib =
  init_context :: "exn option"
  cc_get_principal :: "bytes option \<Rightarrow> exn + krb5_principal"
  cc_credentials :: "bytes option \<Rightarrow> (exn + krb5_cred) list"

record ccache_info =
  ci_principal :: pystr
  ci_realm :: pystr
  ci_expires_at :: datetime
  ci_renew_until :: "datetime option"

text \<open>\<open>b"X-CACHECONF:"\<close>.\<close>

definition CONFIG_ENTRY_REALM :: bytes where
  "CONFIG_ENTRY_REALM = [88, 45, 67, 65, 67, 72, 69, 67, 79, 78, 70, 58]"

definition tgt_server_of :: "pystr \<Rightarrow> pystr" where
  "tgt_server_of realm = lit ''krbtgt/'' @ realm @ lit ''@'' @ realm"

fun find_tgt :: "pystr \<Rightarrow> (exn + krb5_cred) list \<Rightarrow> exn + ticket_times option" where
  "find_tgt tgt [] = Inr None"
| "find_tgt tgt (Inl e # creds) = Inl e"
| "find_tgt tgt (Inr cred # creds) =
     (if server_realm cred = CONFIG_ENTRY_REALM then find_tgt tgt creds
      else case server_str cred of
             Inl e \<Rightarrow> Inl e
           | Inr name \<Rightarrow> if name = tgt then Inr (Some (cred_times cred)) else find_tgt tgt creds)"

definition ccache_info_of :: "krb5_principal \<Rightarrow> pystr \<Rightarrow> ticket_times \<Rightarrow> exn + ccache_info" where
  "ccache_info_of p realm ts =
     (case principal_str p of Inl e \<Rightarrow> Inl e | Inr name \<Rightarrow>
      case fromtimestamp_utc (endtime ts) of Inl e \<Rightarrow> Inl e | Inr expires \<Rightarrow>
      case (if renew_till ts \<noteq> 0 then map_sum id Some (fromtimestamp_utc (renew_till ts))
            else Inr None) of Inl e \<Rightarrow> Inl e | Inr renew \<Rightarrow>
      Inr \<lparr>ci_principal = name, ci_realm = realm, ci_expires_at = expires, ci_renew_until = renew\<rparr>)"

text \<open>The body of the \<open>try\<close>: \<open>Inr None\<close> is falling out of the loop without a ticket.\<close>

definition read_ccache_try :: "krb5_lib \<Rightarrow> bytes option \<Rightarrow> exn + (pystr \<times> ccache_info option)" where
  "read_ccache_try lib file =
     (case init_context lib of Some e \<Rightarrow> Inl e | None \<Rightarrow>
      case cc_get_principal lib file of Inl e \<Rightarrow> Inl e | Inr p \<Rightarrow>
      case utf8_decode (principal_realm p) of Inl e \<Rightarrow> Inl e | Inr realm \<Rightarrow>
      let tgt_server = tgt_server_of realm in
      case find_tgt tgt_server (cc_credentials lib file) of
        Inl e \<Rightarrow> Inl e
      | Inr None \<Rightarrow> Inr (tgt_server, None)
      | Inr (Some ts) \<Rightarrow>
          (case ccache_info_of p realm ts of
             Inl e \<Rightarrow> Inl e | Inr info \<Rightarrow> Inr (tgt_server, Some info)))"

definition read_ccache :: "krb5_lib \<Rightarrow> bytes option \<Rightarrow> exn + ccache_info" where
  "read_ccache lib file =
     (case read_ccache_try lib file of
        Inl (Krb5Error m) \<Rightarrow> Inl (CcacheParseError (lit ''not a readable ccache: '' @ m))
      | Inl e \<Rightarrow> Inl e
      | Inr (_, Some info) \<Rightarrow> Inr info
      | Inr (tgt_server, None) \<Rightarrow>
          Inl (CcacheParseError (lit ''no '' @ tgt_server @ lit '' credential found in minted ccache'')))"

section \<open>The ticket that is reported\<close>

text \<open>A credential the loop passes over: a configuration entry or another server's ticket.\<close>

definition skipped :: "pystr \<Rightarrow> krb5_cred \<Rightarrow> bool" where
  "skipped tgt c \<longleftrightarrow> server_realm c = CONFIG_ENTRY_REALM \<or> (\<exists>n. server_str c = Inr n \<and> n \<noteq> tgt)"

definition is_tgt :: "pystr \<Rightarrow> krb5_cred \<Rightarrow> bool" where
  "is_tgt tgt c \<longleftrightarrow> server_realm c \<noteq> CONFIG_ENTRY_REALM \<and> server_str c = Inr tgt"

lemma find_tgt_Some:
  "find_tgt tgt creds = Inr (Some ts) \<longleftrightarrow>
     (\<exists>pre c post. creds = map Inr pre @ Inr c # post \<and> list_all (skipped tgt) pre
        \<and> is_tgt tgt c \<and> cred_times c = ts)"
proof (induction tgt creds rule: find_tgt.induct)
  case (1 tgt)
  show ?case by simp
next
  case (2 tgt e creds)
  show ?case by (auto simp: Cons_eq_append_conv)
next
  case (3 tgt cred creds)
  have ih: "find_tgt tgt creds = Inr (Some ts) \<longleftrightarrow>
      (\<exists>pre c post. creds = map Inr pre @ Inr c # post \<and> list_all (skipped tgt) pre
        \<and> is_tgt tgt c \<and> cred_times c = ts)" if "skipped tgt cred"
  proof (cases "server_realm cred = CONFIG_ENTRY_REALM")
    case True
    then show ?thesis by (rule 3(1))
  next
    case False
    with that obtain n where n: "server_str cred = Inr n" "n \<noteq> tgt" by (auto simp: skipped_def)
    show ?thesis by (rule 3(2) [OF False n])
  qed
  show ?case (is "?L \<longleftrightarrow> ?R")
  proof
    assume ?L
    then consider "is_tgt tgt cred" "cred_times cred = ts"
      | "skipped tgt cred" "find_tgt tgt creds = Inr (Some ts)"
      by (auto simp: is_tgt_def skipped_def split: if_splits sum.splits)
    then show ?R
    proof cases
      case 1
      then show ?thesis by (intro exI [of _ "[]"]) auto
    next
      case 2
      have "\<exists>pre c post. creds = map Inr pre @ Inr c # post \<and> list_all (skipped tgt) pre
          \<and> is_tgt tgt c \<and> cred_times c = ts"
        using ih [OF 2(1)] 2(2) by blast
      then obtain pre c post where "creds = map Inr pre @ Inr c # post"
        "list_all (skipped tgt) pre" "is_tgt tgt c" "cred_times c = ts" by blast
      with 2(1) show ?thesis by (intro exI [of _ "cred # pre"] exI [of _ c] exI [of _ post]) simp
    qed
  next
    assume ?R
    then obtain pre c post where r: "Inr cred # creds = map Inr pre @ Inr c # post"
      "list_all (skipped tgt) pre" "is_tgt tgt c" "cred_times c = ts" by blast
    show ?L
    proof (cases pre)
      case Nil
      with r show ?thesis by (simp add: is_tgt_def)
    next
      case (Cons d ds)
      with r have d: "creds = map Inr ds @ Inr c # post" "skipped tgt cred" "list_all (skipped tgt) ds"
        by auto
      with r have "find_tgt tgt creds = Inr (Some ts)" unfolding ih [OF d(2)] by blast
      with d(2) show ?thesis by (auto simp: skipped_def)
    qed
  qed
qed

text \<open>
  C29: \<open>read_ccache\<close> reports the first credential of the cache that is not a configuration entry
  and whose server is \<open>krbtgt/R@R\<close> for the realm \<open>R\<close> of the default principal: the times
  returned are that ticket's end time and renewal limit, with 0 as "not renewable".
\<close>

theorem read_ccache_reports_tgt:
  "read_ccache lib file = Inr info \<longleftrightarrow>
     (\<exists>p realm pre c post.
        init_context lib = None \<and> cc_get_principal lib file = Inr p
        \<and> utf8_decode (principal_realm p) = Inr realm
        \<and> cc_credentials lib file = map Inr pre @ Inr c # post
        \<and> list_all (skipped (tgt_server_of realm)) pre \<and> is_tgt (tgt_server_of realm) c
        \<and> principal_str p = Inr (ci_principal info) \<and> ci_realm info = realm
        \<and> fromtimestamp_utc (endtime (cred_times c)) = Inr (ci_expires_at info)
        \<and> (if renew_till (cred_times c) = 0 then ci_renew_until info = None
           else \<exists>d. fromtimestamp_utc (renew_till (cred_times c)) = Inr d \<and> ci_renew_until info = Some d))"
proof -
  have info: "ccache_info_of p realm ts = Inr info \<longleftrightarrow>
      principal_str p = Inr (ci_principal info) \<and> ci_realm info = realm
        \<and> fromtimestamp_utc (endtime ts) = Inr (ci_expires_at info)
        \<and> (if renew_till ts = 0 then ci_renew_until info = None
           else \<exists>d. fromtimestamp_utc (renew_till ts) = Inr d \<and> ci_renew_until info = Some d)" for p realm ts
    by (cases info, cases "fromtimestamp_utc (renew_till ts)")
      (auto simp: ccache_info_of_def split: sum.splits)
  have "read_ccache lib file = Inr info \<longleftrightarrow>
      (\<exists>t. read_ccache_try lib file = Inr (t, Some info))"
    by (auto simp: read_ccache_def split: sum.splits exn.splits option.splits prod.splits)
  also have "\<dots> \<longleftrightarrow> (\<exists>p realm ts. init_context lib = None \<and> cc_get_principal lib file = Inr p
        \<and> utf8_decode (principal_realm p) = Inr realm
        \<and> find_tgt (tgt_server_of realm) (cc_credentials lib file) = Inr (Some ts)
        \<and> ccache_info_of p realm ts = Inr info)"
    by (auto simp: read_ccache_try_def Let_def split: sum.splits option.splits)
  finally show ?thesis
    unfolding find_tgt_Some info by blast
qed

end
