(* ===== verification/Validation.thy ===== *)
theory Validation
  imports Py_Text
begin

text \<open>
  \<open>validate_username\<close> and \<open>validate_lifetime\<close> of minting.py. The two patterns are transcribed
  with combinators for the constructs of Python's \<open>re\<close> they use. A matcher maps a position (a
  flag "at the start of the string" and the text left) to the list of positions it can reach, in
  backtracking order; \<open>fullmatch\<close> asks for one at the end. \<open>accepts r L\<close> relates a matcher to its
  language, and the two validators are proved equal to a direct description of what they admit.
\<close>

section \<open>Matchers\<close>

type_synonym position = "bool \<times> pystr"
type_synonym matcher = "position \<Rightarrow> position list"

fun cls :: "(int \<Rightarrow> bool) \<Rightarrow> matcher" where
  "cls P (b, []) = []"
| "cls P (b, c # cs) = (if P c then [(False, cs)] else [])"

definition chr :: "int \<Rightarrow> matcher" where
  "chr k = cls (\<lambda>c. c = k)"

definition bol :: matcher where
  "bol = (\<lambda>(b, s). if b then [(b, s)] else [])"

text \<open>\<open>$\<close> matches at the end and before a newline that ends the text.\<close>

definition eol :: matcher where
  "eol = (\<lambda>(b, s). if s = [] \<or> s = [10] then [(b, s)] else [])"

definition seqm :: "matcher \<Rightarrow> matcher \<Rightarrow> matcher" where
  "seqm r q p = concat (map q (r p))"

definition alt :: "matcher \<Rightarrow> matcher \<Rightarrow> matcher" where
  "alt r q p = r p @ q p"

definition opt :: "matcher \<Rightarrow> matcher" where
  "opt r p = r p @ [p]"

fun rep :: "nat \<Rightarrow> nat \<Rightarrow> matcher \<Rightarrow> matcher" where
  "rep 0 0 r p = [p]"
| "rep 0 (Suc h) r p = concat (map (rep 0 h r) (r p)) @ [p]"
| "rep (Suc l) 0 r p = []"
| "rep (Suc l) (Suc h) r p = concat (map (rep l h r) (r p))"

text \<open>Repetition without a bound; each round must consume a character, so the length of the text
  left is enough fuel.\<close>

fun star_n :: "nat \<Rightarrow> matcher \<Rightarrow> matcher" where
  "star_n 0 r p = [p]"
| "star_n (Suc n) r p =
     concat (map (star_n n r) (filter (\<lambda>q. length (snd q) < length (snd p)) (r p))) @ [p]"

definition plus :: "matcher \<Rightarrow> matcher" where
  "plus r p = concat (map (\<lambda>q. star_n (length (snd q)) r q) (r p))"

definition anchored :: "matcher \<Rightarrow> matcher" where
  "anchored r = seqm bol (seqm r eol)"

definition fullmatch :: "matcher \<Rightarrow> pystr \<Rightarrow> bool" where
  "fullmatch r s = list_ex (\<lambda>p. snd p = []) (r (True, s))"

section \<open>The language of a matcher\<close>

definition accepts :: "matcher \<Rightarrow> pystr set \<Rightarrow> bool" where
  "accepts r L \<longleftrightarrow> (\<forall>b s b' t. (b', t) \<in> set (r (b, s))
     \<longleftrightarrow> (\<exists>u\<in>L. s = u @ t \<and> b' = (b \<and> u = [])))"

named_theorems accepts_intro

lemma acceptsD: "accepts r L \<Longrightarrow> (b', t) \<in> set (r (b, s)) \<longleftrightarrow> (\<exists>u\<in>L. s = u @ t \<and> b' = (b \<and> u = []))"
  by (simp add: accepts_def)

lemma accepts_cls [accepts_intro]: "accepts (cls P) {[c] |c. P c}"
  unfolding accepts_def
proof (intro allI)
  fix b s b' t
  show "(b', t) \<in> set (cls P (b, s)) \<longleftrightarrow> (\<exists>u\<in>{[c] |c. P c}. s = u @ t \<and> b' = (b \<and> u = []))"
    by (cases s) auto
qed

lemma accepts_chr [accepts_intro]: "accepts (chr k) {[k]}"
  using accepts_cls [of "\<lambda>c. c = k"] by (simp add: chr_def)

definition conc :: "pystr set \<Rightarrow> pystr set \<Rightarrow> pystr set" where
  "conc L M = {u @ v |u v. u \<in> L \<and> v \<in> M}"

lemma in_conc: "u \<in> conc L M \<longleftrightarrow> (\<exists>a b. u = a @ b \<and> a \<in> L \<and> b \<in> M)"
  by (simp add: conc_def)

lemma in_conc_cls: "u \<in> conc {[c] |c. P c} M \<longleftrightarrow> (\<exists>c cs. u = c # cs \<and> P c \<and> cs \<in> M)"
proof
  assume "\<exists>c cs. u = c # cs \<and> P c \<and> cs \<in> M"
  then obtain c cs where "u = [c] @ cs" "P c" "cs \<in> M" by auto
  then show "u \<in> conc {[c] |c. P c} M" unfolding in_conc by blast
qed (auto simp: in_conc)

lemma in_conc_chr: "u \<in> conc A (conc {[k]} B) \<longleftrightarrow> (\<exists>a b. u = a @ k # b \<and> a \<in> A \<and> b \<in> B)"
  by (auto simp: in_conc)

lemma in_conc_opt_chr:
  "u \<in> conc A (insert [] (conc {[k]} B)) \<longleftrightarrow>
     (\<exists>a b. u = a @ b \<and> a \<in> A \<and> (b = [] \<or> (\<exists>s\<in>B. b = k # s)))"
  by (auto simp: in_conc)

lemma accepts_seqm [accepts_intro]:
  assumes "accepts r L" and "accepts q M"
  shows "accepts (seqm r q) (conc L M)"
  unfolding accepts_def
proof (intro allI)
  fix b s b' t
  have "(b', t) \<in> set (seqm r q (b, s)) \<longleftrightarrow>
      (\<exists>b1 s1. (b1, s1) \<in> set (r (b, s)) \<and> (b', t) \<in> set (q (b1, s1)))"
    by (auto simp: seqm_def)
  also have "\<dots> \<longleftrightarrow> (\<exists>u\<in>L. \<exists>v\<in>M. s = u @ v @ t \<and> b' = (b \<and> u = [] \<and> v = []))"
    unfolding acceptsD [OF assms(1)] acceptsD [OF assms(2)] by auto
  also have "\<dots> \<longleftrightarrow> (\<exists>u\<in>conc L M. s = u @ t \<and> b' = (b \<and> u = []))"
    by (fastforce simp: conc_def)
  finally show "(b', t) \<in> set (seqm r q (b, s)) \<longleftrightarrow>
      (\<exists>u\<in>conc L M. s = u @ t \<and> b' = (b \<and> u = []))" .
qed

lemma accepts_opt [accepts_intro]: "accepts r L \<Longrightarrow> accepts (opt r) (insert [] L)"
  by (auto simp: accepts_def opt_def)

lemma rep_step:
  "rep 0 (Suc h) r = opt (seqm r (rep 0 h r))" "rep (Suc l) (Suc h) r = seqm r (rep l h r)"
  by (rule ext, simp add: opt_def seqm_def)+

lemma accepts_rep [accepts_intro]:
  "accepts (rep l h (cls P)) {u. l \<le> length u \<and> length u \<le> h \<and> list_all P u}"
proof (induction h arbitrary: l)
  case 0
  show ?case by (cases l) (auto simp: accepts_def)
next
  case (Suc h)
  let ?L = "\<lambda>l. conc {[c] |c. P c} {u. l \<le> length u \<and> length u \<le> h \<and> list_all P u}"
  have step: "?L l = {u. Suc l \<le> length u \<and> length u \<le> Suc h \<and> list_all P u}" for l
  proof (rule set_eqI)
    fix u
    show "u \<in> ?L l \<longleftrightarrow> u \<in> {u. Suc l \<le> length u \<and> length u \<le> Suc h \<and> list_all P u}"
      unfolding in_conc_cls by (cases u) auto
  qed
  have acc: "accepts (seqm (cls P) (rep l h (cls P))) (?L l)" for l
    by (intro accepts_seqm accepts_cls Suc.IH)
  show ?case
  proof (cases l)
    case 0
    have "accepts (opt (seqm (cls P) (rep 0 h (cls P)))) (insert [] (?L 0))"
      by (intro accepts_opt acc)
    moreover have "insert [] (?L 0) = {u. 0 \<le> length u \<and> length u \<le> Suc h \<and> list_all P u}"
      unfolding step by (auto simp: Suc_le_eq)
    ultimately show ?thesis by (simp only: 0 rep_step)
  next
    case (Suc l')
    then show ?thesis using acc [of l'] by (simp only: step rep_step)
  qed
qed

lemma star_n_cls:
  "length s \<le> n \<Longrightarrow> (b', t) \<in> set (star_n n (cls P) (b, s))
     \<longleftrightarrow> (\<exists>u. list_all P u \<and> s = u @ t \<and> b' = (b \<and> u = []))"
proof (induction n arbitrary: b s)
  case 0
  then show ?case by auto
next
  case (Suc n)
  show ?case
  proof (cases s)
    case Nil
    then show ?thesis by auto
  next
    case (Cons c cs)
    with Suc.IH [of cs False] Suc.prems show ?thesis
      by (auto simp: Cons_eq_append_conv)
  qed
qed

lemma accepts_plus [accepts_intro]: "accepts (plus (cls P)) {u. u \<noteq> [] \<and> list_all P u}"
  unfolding accepts_def
proof (intro allI)
  fix b s b' t
  show "(b', t) \<in> set (plus (cls P) (b, s)) \<longleftrightarrow>
      (\<exists>u\<in>{u. u \<noteq> [] \<and> list_all P u}. s = u @ t \<and> b' = (b \<and> u = []))"
  proof (cases s)
    case Nil
    then show ?thesis by (simp add: plus_def)
  next
    case (Cons c cs)
    then show ?thesis
      using star_n_cls [of cs "length cs" b' t P False]
      by (auto simp: plus_def Cons_eq_append_conv)
  qed
qed

lemma fullmatch_anchored: "accepts r L \<Longrightarrow> fullmatch (anchored r) s \<longleftrightarrow> s \<in> L"
  by (auto simp: fullmatch_def anchored_def seqm_def bol_def eol_def list_ex_iff acceptsD)

lemma fullmatch_alt: "fullmatch (alt r q) s \<longleftrightarrow> fullmatch r s \<or> fullmatch q s"
  by (auto simp: fullmatch_def alt_def)

section \<open>Usernames\<close>

definition username_tail :: "int \<Rightarrow> bool" where
  "username_tail c \<longleftrightarrow> is_ascii_alpha c \<or> is_ascii_digit c \<or> c = 95 \<or> c = 45"

definition USERNAME_RE :: matcher where
  "USERNAME_RE = anchored (seqm (cls is_ascii_alpha) (rep 0 63 (cls username_tail)))"

definition validate_username :: "pystr \<Rightarrow> exn + unit" where
  "validate_username username =
     (if \<not> fullmatch USERNAME_RE username then Inl (InvalidUsernameError username) else Inr ())"

section \<open>Lifetimes\<close>

text \<open>The three alternatives of the pattern: seconds, \<open>h:m[:s]\<close>, and \<open>NdNhNmNs\<close> with every part
  optional. 58 is the colon; 100, 104, 109 and 115 are d, h, m and s.\<close>

definition component :: "int \<Rightarrow> matcher" where
  "component k = opt (seqm (plus (cls is_decimal)) (chr k))"

definition LIFETIME_RE :: matcher where
  "LIFETIME_RE =
     alt (anchored (plus (cls is_decimal)))
     (alt (anchored (seqm (rep 1 3 (cls is_decimal)) (seqm (chr 58) (seqm (rep 2 2 (cls is_decimal))
              (opt (seqm (chr 58) (rep 2 2 (cls is_decimal))))))))
          (anchored (seqm (component 100) (seqm (component 104) (seqm (component 109) (component 115))))))"

definition validate_lifetime :: "pystr \<Rightarrow> exn + unit" where
  "validate_lifetime value =
     (if value = [] \<or> \<not> fullmatch LIFETIME_RE value then Inl (InvalidLifetimeError value)
      else Inr ())"

section \<open>What the validators admit\<close>

lemma USERNAME_RE_lang:
  "fullmatch USERNAME_RE u \<longleftrightarrow>
     (\<exists>c cs. u = c # cs \<and> is_ascii_alpha c \<and> length cs \<le> 63 \<and> list_all username_tail cs)"
  unfolding USERNAME_RE_def
  by (subst fullmatch_anchored [OF accepts_seqm [OF accepts_cls accepts_rep]])
    (auto simp: in_conc_cls)

lemma validate_username_eq:
  "validate_username u =
     (case u of
        [] \<Rightarrow> Inl (InvalidUsernameError u)
      | c # cs \<Rightarrow> if is_ascii_alpha c \<and> length cs \<le> 63 \<and> list_all username_tail cs then Inr ()
                else Inl (InvalidUsernameError u))"
  by (auto simp: validate_username_def USERNAME_RE_lang split: list.split)

definition digit_run :: "pystr \<Rightarrow> bool" where
  "digit_run u \<longleftrightarrow> u \<noteq> [] \<and> list_all is_decimal u"

text \<open>The three forms of MIT's time duration, over any notion of digit.\<close>

definition clock_form :: "(int \<Rightarrow> bool) \<Rightarrow> pystr \<Rightarrow> bool" where
  "clock_form D v \<longleftrightarrow> (\<exists>h m r. v = h @ 58 # m @ r
     \<and> 1 \<le> length h \<and> length h \<le> 3 \<and> list_all D h \<and> length m = 2 \<and> list_all D m
     \<and> (r = [] \<or> (\<exists>s. r = 58 # s \<and> length s = 2 \<and> list_all D s)))"

definition part_form :: "(int \<Rightarrow> bool) \<Rightarrow> int \<Rightarrow> pystr \<Rightarrow> bool" where
  "part_form D k u \<longleftrightarrow> u = [] \<or> (\<exists>n. n \<noteq> [] \<and> list_all D n \<and> u = n @ [k])"

definition units_form :: "(int \<Rightarrow> bool) \<Rightarrow> pystr \<Rightarrow> bool" where
  "units_form D v \<longleftrightarrow> (\<exists>d h m s. v = d @ h @ m @ s \<and> part_form D 100 d \<and> part_form D 104 h
     \<and> part_form D 109 m \<and> part_form D 115 s)"

definition duration :: "(int \<Rightarrow> bool) \<Rightarrow> pystr \<Rightarrow> bool" where
  "duration D v \<longleftrightarrow> v \<noteq> [] \<and> (list_all D v \<or> clock_form D v \<or> units_form D v)"

lemma accepts_component: "accepts (component k) {u. part_form is_decimal k u}"
proof -
  have "accepts (component k) (insert [] (conc {u. u \<noteq> [] \<and> list_all is_decimal u} {[k]}))"
    unfolding component_def by (intro accepts_intro)
  moreover have "insert [] (conc {u. u \<noteq> [] \<and> list_all is_decimal u} {[k]})
      = {u. part_form is_decimal k u}"
    by (auto simp: part_form_def conc_def)
  ultimately show ?thesis by simp
qed

lemma LIFETIME_RE_lang:
  "v \<noteq> [] \<Longrightarrow> fullmatch LIFETIME_RE v \<longleftrightarrow> duration is_decimal v"
proof -
  assume ne: "v \<noteq> []"
  have one: "fullmatch (anchored (plus (cls is_decimal))) v \<longleftrightarrow> list_all is_decimal v"
    using ne by (subst fullmatch_anchored [OF accepts_plus]) simp
  have two: "fullmatch (anchored (seqm (rep 1 3 (cls is_decimal)) (seqm (chr 58)
      (seqm (rep 2 2 (cls is_decimal)) (opt (seqm (chr 58) (rep 2 2 (cls is_decimal)))))))) v
      \<longleftrightarrow> clock_form is_decimal v"
  proof -
    let ?two = "{u. 2 \<le> length u \<and> length u \<le> 2 \<and> list_all is_decimal u} :: pystr set"
    let ?h = "{u. 1 \<le> length u \<and> length u \<le> 3 \<and> list_all is_decimal u} :: pystr set"
    have two: "u \<in> ?two \<longleftrightarrow> length u = 2 \<and> list_all is_decimal u" for u by auto
    have "fullmatch (anchored (seqm (rep 1 3 (cls is_decimal)) (seqm (chr 58)
        (seqm (rep 2 2 (cls is_decimal)) (opt (seqm (chr 58) (rep 2 2 (cls is_decimal)))))))) v
        \<longleftrightarrow> v \<in> conc ?h (conc {[58]} (conc ?two (insert [] (conc {[58]} ?two))))"
      by (intro fullmatch_anchored accepts_intro)
    also have "\<dots> \<longleftrightarrow> (\<exists>h m r. v = h @ 58 # m @ r \<and> h \<in> ?h \<and> m \<in> ?two
        \<and> (r = [] \<or> (\<exists>s\<in>?two. r = 58 # s)))"
      unfolding in_conc_chr in_conc_opt_chr by blast
    also have "\<dots> \<longleftrightarrow> clock_form is_decimal v"
      unfolding clock_form_def Bex_def two by (simp only: mem_Collect_eq conj_ac)
    finally show ?thesis .
  qed
  have three: "fullmatch (anchored (seqm (component 100) (seqm (component 104)
      (seqm (component 109) (component 115))))) v \<longleftrightarrow> units_form is_decimal v"
    by (subst fullmatch_anchored, (rule accepts_seqm accepts_component)+)
      (unfold in_conc units_form_def mem_Collect_eq, blast)
  show ?thesis
    unfolding LIFETIME_RE_def fullmatch_alt one two three using ne by (auto simp: duration_def)
qed

lemma validate_lifetime_eq:
  "validate_lifetime v = (if duration is_decimal v then Inr () else Inl (InvalidLifetimeError v))"
  by (cases "v = []") (auto simp: validate_lifetime_def LIFETIME_RE_lang duration_def)

text \<open>
  C34: the validators, exactly. \<open>validate_username\<close> accepts the strings of 1 to 64 characters that
  start with an ASCII letter and go on with ASCII letters, digits, underscores and hyphens, and
  otherwise raises \<open>InvalidUsernameError\<close>; \<open>validate_lifetime\<close> accepts the non-empty strings of the
  three duration forms (seconds, \<open>h:m[:s]\<close>, \<open>NdNhNmNs\<close>) over Unicode decimal digits, and otherwise
  raises \<open>InvalidLifetimeError\<close>.
\<close>

theorem validators_exact:
  "validate_username u =
     (case u of
        [] \<Rightarrow> Inl (InvalidUsernameError u)
      | c # cs \<Rightarrow> if is_ascii_alpha c \<and> length cs \<le> 63 \<and> list_all username_tail cs then Inr ()
                else Inl (InvalidUsernameError u))
   \<and> validate_lifetime v = (if duration is_decimal v then Inr () else Inl (InvalidLifetimeError v))"
  by (intro conjI validate_username_eq validate_lifetime_eq)

section \<open>What an accepted value can contain\<close>

lemma username_tail_chars: "username_tail c \<Longrightarrow> 45 \<le> c \<and> c \<le> 122 \<and> c \<noteq> 47 \<and> c \<noteq> 64"
  by (auto simp: username_tail_def is_ascii_alpha_def is_ascii_digit_def)

lemma validate_username_iff:
  "validate_username u = Inr () \<longleftrightarrow>
     (\<exists>c cs. u = c # cs \<and> is_ascii_alpha c \<and> length cs \<le> 63 \<and> list_all username_tail cs)"
  unfolding USERNAME_RE_lang [symmetric] by (simp add: validate_username_def)

lemma accepted_username:
  assumes "validate_username u = Inr ()"
  shows "u \<noteq> []" "hd u \<noteq> 45" "c \<in> set u \<Longrightarrow> 45 \<le> c \<and> c \<le> 122 \<and> c \<noteq> 47 \<and> c \<noteq> 64"
  using assms unfolding validate_username_iff
  by (auto simp: list_all_iff is_ascii_alpha_def dest: username_tail_chars)

lemma validate_username_Inl: "validate_username u = Inl e \<Longrightarrow> e = InvalidUsernameError u"
  by (auto simp: validate_username_def split: if_splits)

lemma validate_lifetime_Inl: "validate_lifetime v = Inl e \<Longrightarrow> e = InvalidLifetimeError v"
  by (auto simp: validate_lifetime_def split: if_splits)

lemma part_form_chars: "part_form D k u \<Longrightarrow> c \<in> set u \<Longrightarrow> D c \<or> c = k"
  by (auto simp: part_form_def list_all_iff)

lemma part_form_hd: "part_form D k u \<Longrightarrow> u \<noteq> [] \<Longrightarrow> D (hd u)"
  by (auto simp: part_form_def neq_Nil_conv)

lemma duration_chars:
  assumes "duration D v" and "c \<in> set v"
  shows "D c \<or> c \<in> {58, 100, 104, 109, 115}"
proof -
  consider "list_all D v" | "clock_form D v" | "units_form D v"
    using assms(1) by (auto simp: duration_def)
  then show ?thesis
  proof cases
    case 1
    with assms(2) show ?thesis by (simp add: list_all_iff)
  next
    case 2
    with assms(2) show ?thesis by (auto simp: clock_form_def list_all_iff)
  next
    case 3
    with assms(2) show ?thesis by (auto simp: units_form_def dest: part_form_chars)
  qed
qed

lemma duration_hd:
  assumes "duration D v"
  shows "v \<noteq> []" and "D (hd v)"
proof -
  show ne: "v \<noteq> []" using assms by (simp add: duration_def)
  consider "list_all D v" | "clock_form D v" | "units_form D v"
    using assms by (auto simp: duration_def)
  then show "D (hd v)"
  proof cases
    case 1
    with ne show ?thesis by (cases v) simp_all
  next
    case 2
    then obtain h r where "v = h @ r" "1 \<le> length h" "list_all D h"
      by (auto simp: clock_form_def)
    then show ?thesis by (cases h) simp_all
  next
    case 3
    then show ?thesis using ne unfolding units_form_def
      by (metis append_self_conv2 hd_append2 part_form_hd)
  qed
qed

lemma accepted_lifetime:
  assumes "validate_lifetime v = Inr ()"
  shows "v \<noteq> []" "hd v \<noteq> 45" "c \<in> set v \<Longrightarrow> 48 \<le> c"
proof -
  have d: "duration is_decimal v"
    using assms by (simp add: validate_lifetime_eq split: if_splits)
  show "v \<noteq> []" by (rule duration_hd(1) [OF d])
  show "hd v \<noteq> 45" using duration_hd(2) [OF d] decimal_ge_48 by fastforce
  show "48 \<le> c" if "c \<in> set v"
    using duration_chars [OF d that] decimal_ge_48 by auto
qed

lemma duration_mono:
  assumes le: "\<And>c. c \<in> set v \<Longrightarrow> D c \<Longrightarrow> E c" and d: "duration D v"
  shows "duration E v"
proof -
  have sub: "list_all D u \<Longrightarrow> set u \<subseteq> set v \<Longrightarrow> list_all E u" for u
    using le by (auto simp: list_all_iff)
  have part: "part_form D k u \<Longrightarrow> set u \<subseteq> set v \<Longrightarrow> part_form E k u" for k u
    unfolding part_form_def using sub by auto
  from d consider "list_all D v" | "clock_form D v" | "units_form D v" by (auto simp: duration_def)
  then show ?thesis
  proof cases
    case 1
    with d sub show ?thesis by (simp add: duration_def)
  next
    case 2
    then obtain h m r where v: "v = h @ 58 # m @ r"
      and hm: "1 \<le> length h" "length h \<le> 3" "list_all D h" "length m = 2" "list_all D m"
      and r: "r = [] \<or> (\<exists>s. r = 58 # s \<and> length s = 2 \<and> list_all D s)"
      unfolding clock_form_def by blast
    have "list_all E h" "list_all E m" using hm sub by (auto simp: v)
    moreover have "r = [] \<or> (\<exists>s. r = 58 # s \<and> length s = 2 \<and> list_all E s)"
      using r
    proof
      assume "\<exists>s. r = 58 # s \<and> length s = 2 \<and> list_all D s"
      then obtain s where s: "r = 58 # s" "length s = 2" "list_all D s" by blast
      then have "set s \<subseteq> set v" by (auto simp: v)
      with s sub show ?thesis by blast
    qed simp
    ultimately have "clock_form E v" unfolding clock_form_def using v hm by blast
    with d show ?thesis by (simp add: duration_def)
  next
    case 3
    then obtain d' h m s where v: "v = d' @ h @ m @ s" and ps: "part_form D 100 d'"
      "part_form D 104 h" "part_form D 109 m" "part_form D 115 s" unfolding units_form_def by blast
    have "set d' \<subseteq> set v" "set h \<subseteq> set v" "set m \<subseteq> set v" "set s \<subseteq> set v" by (auto simp: v)
    with ps part have "units_form E v" unfolding units_form_def using v by blast
    with d show ?thesis by (simp add: duration_def)
  qed
qed

text \<open>
  On ASCII text \<open>validate_lifetime\<close> accepts exactly MIT's time durations: the values it
  accepts that are ASCII are the durations over ASCII digits.
\<close>

lemma validate_lifetime_ascii:
  "validate_lifetime v = Inr () \<and> list_all (\<lambda>c. c < 128) v \<longleftrightarrow> duration is_ascii_digit v"
proof
  assume "validate_lifetime v = Inr () \<and> list_all (\<lambda>c. c < 128) v"
  then show "duration is_ascii_digit v"
    using duration_mono [of v is_decimal is_ascii_digit]
    by (auto simp: validate_lifetime_eq list_all_iff decimal_below_128 split: if_splits)
next
  assume d: "duration is_ascii_digit v"
  then have "list_all (\<lambda>c. c < 128) v"
    by (auto simp: list_all_iff is_ascii_digit_def dest!: duration_chars)
  with d show "validate_lifetime v = Inr () \<and> list_all (\<lambda>c. c < 128) v"
    using duration_mono [of v is_ascii_digit is_decimal]
    by (simp add: validate_lifetime_eq ascii_digit_is_decimal)
qed

text \<open>
  Beyond ASCII it accepts more than the documented grammar: \<open>\d\<close> on a \<open>str\<close> matches every
  Unicode decimal digit, so the two Arabic-Indic digits of "57" pass as a lifetime and reach kinit.
\<close>

lemma validate_lifetime_non_ascii_digits:
  "validate_lifetime [1637, 1639] = Inr () \<and> \<not> duration is_ascii_digit [1637, 1639]"
proof -
  have "is_decimal 1637" "is_decimal 1639" by (simp_all add: is_decimal_def decimal_zeros_def)
  then have "duration is_decimal [1637, 1639]" by (simp add: duration_def)
  moreover have "\<not> list_all (\<lambda>c. c < (128::int)) [1637, 1639]" by simp
  ultimately show ?thesis
    using duration_chars [of is_ascii_digit "[1637, 1639]" 1637]
    by (auto simp: validate_lifetime_eq is_ascii_digit_def)
qed

end
