(* ===== verification/Minting.thy ===== *)
theory Minting
  imports Runtime Ccache Config Validation
begin

text \<open>
  minting.py: the stderr classifiers, the zeroing of secret buffers, and the three minting
  operations \<open>mint_ticket\<close>, \<open>renew_ticket\<close> and \<open>mint_keytab\<close> over the world of \<open>Runtime\<close>. A
  \<open>bytearray\<close> argument is passed by address, so that zeroing it is seen by the caller; the
  validators are in \<open>Validation\<close> and \<open>_run_subprocess\<close> in \<open>Runtime\<close>.
\<close>

section \<open>Data\<close>

record minted_ticket =
  mt_ccache :: bytes
  mt_principal :: pystr
  mt_realm :: pystr
  mt_expires_at :: datetime
  mt_renew_until :: "datetime option"

definition minted_of :: "bytes \<Rightarrow> ccache_info \<Rightarrow> minted_ticket" where
  "minted_of bs info = \<lparr>mt_ccache = bs, mt_principal = ci_principal info, mt_realm = ci_realm info,
     mt_expires_at = ci_expires_at info, mt_renew_until = ci_renew_until info\<rparr>"

section \<open>Zeroing a buffer\<close>

definition store :: "nat \<Rightarrow> nat \<Rightarrow> 8 word \<Rightarrow> unit op" where
  "store a i v w = (Inr (), w\<lparr>heap := (heap w)[a := ByteArray ((raw (heap w ! a))[i := v])]\<rparr>)"

fun zero_loop :: "nat \<Rightarrow> nat \<Rightarrow> nat \<Rightarrow> unit op" where
  "zero_loop a i 0 = ret ()"
| "zero_loop a i (Suc n) = andthen (store a i 0) (\<lambda>_. zero_loop a (Suc i) n)"

definition zero_bytearray :: "nat \<Rightarrow> unit op" where
  "zero_bytearray a = andthen (deref a) (\<lambda>buf. zero_loop a 0 (length buf))"

definition zero_if_given :: "nat option \<Rightarrow> unit op" where
  "zero_if_given a = (case a of None \<Rightarrow> ret () | Some a \<Rightarrow> zero_bytearray a)"

section \<open>The stderr classifiers\<close>

definition BAD_PASSWORD_MARKERS :: "pystr list" where
  "BAD_PASSWORD_MARKERS = [lit ''Password incorrect'']"

definition UNKNOWN_PRINCIPAL_MARKERS :: "pystr list" where
  "UNKNOWN_PRINCIPAL_MARKERS = [lit ''not found in Kerberos database'']"

definition REVOKED_MARKERS :: "pystr list" where
  "REVOKED_MARKERS = [lit ''credentials have been revoked'']"

definition PASSWORD_EXPIRED_MARKERS :: "pystr list" where
  "PASSWORD_EXPIRED_MARKERS = [lit ''Password has expired'']"

definition BAD_KEY_MARKERS :: "pystr list" where
  "BAD_KEY_MARKERS = [lit ''Preauthentication failed'', lit ''Decrypt integrity check failed'']"

definition TICKET_EXPIRED_MARKERS :: "pystr list" where
  "TICKET_EXPIRED_MARKERS = [lit ''Ticket expired'']"

definition NO_CREDENTIALS_MARKERS :: "pystr list" where
  "NO_CREDENTIALS_MARKERS = [lit ''Could not find any credentials to authenticate with'']"

definition ACCOUNT_REVOKED_DETAIL :: pystr where
  "ACCOUNT_REVOKED_DETAIL =
     lit ''This CERN account's credentials have been revoked. Contact CERN account support.''"

definition PASSWORD_EXPIRED_DETAIL :: pystr where
  "PASSWORD_EXPIRED_DETAIL =
     lit ''This CERN account's password has expired and must be changed before a ''
     @ lit ''ticket can be minted.''"

text \<open>\<open>any(marker in stderr for marker in markers)\<close>.\<close>

definition any_marker :: "pystr list \<Rightarrow> pystr \<Rightarrow> bool" where
  "any_marker markers s = list_ex (\<lambda>m. sublist m s) markers"

definition classify_password_stderr :: "pystr \<Rightarrow> exn option" where
  "classify_password_stderr s =
     (if any_marker BAD_PASSWORD_MARKERS s then Some (BadPasswordError (lit ''bad password''))
      else if any_marker UNKNOWN_PRINCIPAL_MARKERS s
        then Some (UnknownPrincipalError (lit ''unknown principal''))
      else if any_marker REVOKED_MARKERS s then Some (AccountUnusableError ACCOUNT_REVOKED_DETAIL)
      else if any_marker PASSWORD_EXPIRED_MARKERS s
        then Some (AccountUnusableError PASSWORD_EXPIRED_DETAIL)
      else None)"

definition classify_keytab_stderr :: "pystr \<Rightarrow> exn option" where
  "classify_keytab_stderr s =
     (if any_marker BAD_KEY_MARKERS s then Some (BadKeytabError (lit ''bad keytab''))
      else if any_marker UNKNOWN_PRINCIPAL_MARKERS s
        then Some (UnknownPrincipalError (lit ''unknown principal''))
      else if any_marker REVOKED_MARKERS s then Some (AccountUnusableError ACCOUNT_REVOKED_DETAIL)
      else None)"

definition classify_renew_stderr :: "pystr \<Rightarrow> exn option" where
  "classify_renew_stderr s =
     (if any_marker TICKET_EXPIRED_MARKERS s
      then Some (TicketExpiredError (lit ''ticket no longer renewable'')) else None)"

definition classify_cern_get_keytab_stderr :: "pystr \<Rightarrow> exn option" where
  "classify_cern_get_keytab_stderr s =
     (if any_marker (BAD_KEY_MARKERS @ NO_CREDENTIALS_MARKERS) s
      then Some (BadPasswordError (lit ''bad password'')) else None)"

text \<open>\<open>type(classified).__name__\<close> of the exceptions the classifiers build.\<close>

fun class_name :: "exn \<Rightarrow> pystr" where
  "class_name (BadPasswordError _) = lit ''BadPasswordError''"
| "class_name (BadKeytabError _) = lit ''BadKeytabError''"
| "class_name (UnknownPrincipalError _) = lit ''UnknownPrincipalError''"
| "class_name (AccountUnusableError _) = lit ''AccountUnusableError''"
| "class_name (TicketExpiredError _) = lit ''TicketExpiredError''"
| "class_name _ = lit ''Exception''"

fun is_BadPasswordError :: "exn \<Rightarrow> bool" where
  "is_BadPasswordError (BadPasswordError _) = True"
| "is_BadPasswordError _ = False"

fun is_BadKeytabError :: "exn \<Rightarrow> bool" where
  "is_BadKeytabError (BadKeytabError _) = True"
| "is_BadKeytabError _ = False"

definition stderr_text :: "bytes \<Rightarrow> pystr" where
  "stderr_text err = strip (utf8_decode_replace err)"

section \<open>mint_ticket\<close>

definition kinit_failed :: "pystr \<Rightarrow> bool \<Rightarrow> int \<Rightarrow> bytes \<Rightarrow> 'a op" where
  "kinit_failed username with_keytab returncode err =
     (let text = stderr_text err;
          details = [(lit ''returncode'', JNum (of_int returncode)), (lit ''stderr'', JStr text),
                    (lit ''username'', JStr username)]
      in case (if with_keytab then classify_keytab_stderr else classify_password_stderr) text of
           Some e \<Rightarrow>
             andthen (if \<not> (is_BadPasswordError e \<or> is_BadKeytabError e)
                      then log_op LOG_WARNING ''kinit_failed''
                             (details @ [(lit ''classified'', JStr (class_name e))])
                      else ret ())
               (\<lambda>_. throw e)
         | None \<Rightarrow>
             andthen (log_op LOG_ERROR ''kinit_failed'' details)
               (\<lambda>_. throw (MintingError (lit ''kinit exited '' @ str_int returncode))))"

definition no_output :: "string \<Rightarrow> event_dict \<Rightarrow> pystr \<Rightarrow> exn \<Rightarrow> 'a op option" where
  "no_output name details msg e =
     (case e of
        OSErr _ \<Rightarrow> Some (andthen (log_op LOG_ERROR name details) (\<lambda>_. throw (MintingError msg)))
      | _ \<Rightarrow> None)"

definition require_nonempty :: "string \<Rightarrow> event_dict \<Rightarrow> pystr \<Rightarrow> bytes \<Rightarrow> unit op" where
  "require_nonempty name details msg bs =
     (if bs = [] then andthen (log_op LOG_ERROR name details) (\<lambda>_. throw (MintingError msg))
      else ret ())"

definition parse_ccache :: "krb5_lib \<Rightarrow> pystr \<Rightarrow> ccache_info op" where
  "parse_ccache lib p w = (read_ccache lib (map_option content (files w p)), w)"

definition krb5_environ :: "os_env \<Rightarrow> settings \<Rightarrow> (pystr \<times> pystr) list" where
  "krb5_environ env s = AList.update (lit ''KRB5_CONFIG'') (krb5_config s) (environ env)"

definition principal_of :: "pystr \<Rightarrow> settings \<Rightarrow> pystr" where
  "principal_of username s = username @ lit ''@'' @ default_realm s"

text \<open>The copy of a password followed by a newline, in a buffer of its own.\<close>

definition stdin_buffer :: "nat \<Rightarrow> nat op" where
  "stdin_buffer password =
     andthen (deref password) (\<lambda>pw. andthen (alloc (ByteArray pw)) (\<lambda>a.
     andthen (append_bytes a [10]) (\<lambda>_. ret a)))"

definition bytes_of :: "nat \<Rightarrow> bytes op" where
  "bytes_of a = andthen (deref a) (\<lambda>b. andthen (alloc (Bytes b)) (\<lambda>_. ret b))"

text \<open>The body of the \<open>with\<close> block, in two parts: from the call of kinit on, and the whole.\<close>

definition mint_from_kinit ::
    "os_env \<Rightarrow> krb5_lib \<Rightarrow> settings \<Rightarrow> pystr \<Rightarrow> bool \<Rightarrow> pystr \<Rightarrow> pystr list \<Rightarrow> bytes option
       \<Rightarrow> (bytes \<times> ccache_info) op" where
  "mint_from_kinit env lib s username with_keytab ccache_path args input =
     (let user = [(lit ''username'', JStr username)]
      in andthen (run_subprocess env args input (kinit_timeout_seconds s) (kinit_bin s) username
                    (krb5_environ env s))
           (\<lambda>(returncode, out, err).
         if returncode \<noteq> 0 then kinit_failed username with_keytab returncode err
         else
           andthen (catching (read_bytes env ccache_path)
                      (no_output ''kinit_no_output'' user (lit ''kinit produced no ccache file'')))
             (\<lambda>ccache_bytes.
           andthen (require_nonempty ''kinit_empty_output'' user
                      (lit ''kinit produced an empty ccache file'') ccache_bytes)
             (\<lambda>_. andthen (parse_ccache lib ccache_path) (\<lambda>info. ret (ccache_bytes, info))))))"

definition mint_in_tmpdir ::
    "os_env \<Rightarrow> krb5_lib \<Rightarrow> settings \<Rightarrow> pystr \<Rightarrow> pystr \<Rightarrow> pystr \<Rightarrow> nat option \<Rightarrow> nat option
       \<Rightarrow> pystr \<Rightarrow> (bytes \<times> ccache_info) op" where
  "mint_in_tmpdir env lib s username lifetime renewable payload keytab tmpdir =
     (let ccache_path = join_path tmpdir ''ccache'';
          argv0 = [kinit_bin s, lit ''-c'', lit ''FILE:'' @ ccache_path]
      in andthen
           (case keytab of
              None \<Rightarrow> ret argv0
            | Some k \<Rightarrow>
                let keytab_path = join_path tmpdir ''keytab''
                in andthen (bytes_of k) (\<lambda>kb. andthen (write_bytes env keytab_path kb) (\<lambda>_.
                   andthen (chmod env keytab_path 384) (\<lambda>_.
                   ret (argv0 @ [lit ''-k'', lit ''-t'', keytab_path])))))
           (\<lambda>argv1.
         let argv2 = argv1 @ [lit ''-l'', lifetime, lit ''-r'', renewable, principal_of username s]
         in andthen
              (case payload of None \<Rightarrow> ret None | Some a \<Rightarrow> andthen (bytes_of a) (\<lambda>b. ret (Some b)))
              (\<lambda>input. mint_from_kinit env lib s username (keytab \<noteq> None) ccache_path argv2 input)))"

definition mint_ticket ::
    "os_env \<Rightarrow> krb5_lib \<Rightarrow> settings \<Rightarrow> pystr \<Rightarrow> nat option \<Rightarrow> pystr \<Rightarrow> pystr \<Rightarrow> nat option
       \<Rightarrow> minted_ticket op" where
  "mint_ticket env lib s username password lifetime renewable keytab =
     (if (password = None) = (keytab = None)
      then throw (ValueErr (lit ''mint_ticket requires exactly one of password or keytab''))
      else
        andthen (mkdir env (ccache_tmp_root s)) (\<lambda>_.
        andthen (case password of None \<Rightarrow> ret None
                 | Some p \<Rightarrow> andthen (stdin_buffer p) (\<lambda>a. ret (Some a))) (\<lambda>payload.
        andthen
          (finally_do
             (with_tmpdir env
                (mint_in_tmpdir env lib s username lifetime renewable payload keytab))
             (andthen (zero_if_given payload) (\<lambda>_. andthen (zero_if_given password) (\<lambda>_.
              zero_if_given keytab))))
          (\<lambda>(ccache_bytes, info). ret (minted_of ccache_bytes info)))))"

section \<open>renew_ticket\<close>

definition renew_failed :: "int \<Rightarrow> bytes \<Rightarrow> 'a op" where
  "renew_failed returncode err =
     (let text = stderr_text err
      in case classify_renew_stderr text of
           Some e \<Rightarrow> throw e
         | None \<Rightarrow>
             andthen (log_op LOG_ERROR ''kinit_renew_failed''
                        [(lit ''returncode'', JNum (of_int returncode)), (lit ''stderr'', JStr text)])
               (\<lambda>_. throw (MintingError (lit ''kinit -R exited '' @ str_int returncode))))"

definition renew_in_tmpdir ::
    "os_env \<Rightarrow> krb5_lib \<Rightarrow> settings \<Rightarrow> bytes \<Rightarrow> pystr \<Rightarrow> (bytes \<times> ccache_info) op" where
  "renew_in_tmpdir env lib s ccache tmpdir =
     (let ccache_path = join_path tmpdir ''ccache''
      in andthen (write_bytes env ccache_path ccache) (\<lambda>_.
         andthen (chmod env ccache_path 384) (\<lambda>_.
         andthen (parse_ccache lib ccache_path) (\<lambda>_.
         andthen (run_subprocess env [kinit_bin s, lit ''-R'', lit ''-c'', lit ''FILE:'' @ ccache_path]
                    None (kinit_timeout_seconds s) (kinit_bin s) (lit ''renew'') (krb5_environ env s))
           (\<lambda>(returncode, out, err).
         if returncode \<noteq> 0 then renew_failed returncode err
         else
           andthen (read_bytes env ccache_path) (\<lambda>renewed.
           andthen (require_nonempty ''kinit_renew_empty_output'' []
                      (lit ''kinit -R produced an empty ccache file'') renewed) (\<lambda>_.
           andthen (parse_ccache lib ccache_path) (\<lambda>info. ret (renewed, info)))))))))"

definition renew_ticket :: "os_env \<Rightarrow> krb5_lib \<Rightarrow> settings \<Rightarrow> bytes \<Rightarrow> minted_ticket op" where
  "renew_ticket env lib s ccache =
     andthen (mkdir env (ccache_tmp_root s)) (\<lambda>_.
     andthen (with_tmpdir env (renew_in_tmpdir env lib s ccache)) (\<lambda>(renewed, info).
     ret (minted_of renewed info)))"

section \<open>mint_keytab\<close>

definition cern_get_keytab_failed :: "pystr \<Rightarrow> int \<Rightarrow> bytes \<Rightarrow> 'a op" where
  "cern_get_keytab_failed username returncode err =
     (let text = stderr_text err;
          details = [(lit ''returncode'', JNum (of_int returncode)), (lit ''stderr'', JStr text),
                    (lit ''username'', JStr username)]
      in case classify_cern_get_keytab_stderr text of
           Some e \<Rightarrow>
             andthen (if \<not> is_BadPasswordError e
                      then log_op LOG_WARNING ''cern_get_keytab_failed''
                             (details @ [(lit ''classified'', JStr (class_name e))])
                      else ret ())
               (\<lambda>_. throw e)
         | None \<Rightarrow>
             andthen (log_op LOG_ERROR ''cern_get_keytab_failed'' details)
               (\<lambda>_. throw (MintingError (lit ''cern-get-keytab exited '' @ str_int returncode))))"

definition keytab_in_tmpdir ::
    "os_env \<Rightarrow> settings \<Rightarrow> pystr \<Rightarrow> nat \<Rightarrow> pystr \<Rightarrow> bytes op" where
  "keytab_in_tmpdir env s username payload tmpdir =
     (let keytab_path = join_path tmpdir ''keytab'';
          args = [executable env, cern_get_keytab_bin s, lit ''-u'', lit ''-v'', lit ''-l'', username,
                  lit ''--keytab'', keytab_path];
          user = [(lit ''username'', JStr username)]
      in andthen (bytes_of payload) (\<lambda>input.
         andthen (run_subprocess env args (Some input) (cern_get_keytab_timeout_seconds s)
                    (cern_get_keytab_bin s) username (krb5_environ env s))
           (\<lambda>(returncode, out, err).
         if returncode \<noteq> 0 then cern_get_keytab_failed username returncode err
         else
           andthen (catching (read_bytes env keytab_path)
                      (no_output ''cern_get_keytab_no_output'' user
                         (lit ''cern-get-keytab produced no keytab file''))) (\<lambda>keytab_bytes.
           andthen (require_nonempty ''cern_get_keytab_empty_output'' user
                      (lit ''cern-get-keytab produced an empty keytab file'') keytab_bytes)
             (\<lambda>_. ret keytab_bytes)))))"

definition mint_keytab :: "os_env \<Rightarrow> settings \<Rightarrow> pystr \<Rightarrow> nat \<Rightarrow> bytes op" where
  "mint_keytab env s username password =
     andthen (mkdir env (ccache_tmp_root s)) (\<lambda>_.
     andthen (stdin_buffer password) (\<lambda>payload.
     finally_do
       (with_tmpdir env (keytab_in_tmpdir env s username payload))
       (andthen (zero_bytearray payload) (\<lambda>_. zero_bytearray password))))"

end
