(* ===== verification/Py_Base64.thy ===== *)
theory Py_Base64
  imports Py_Text
begin

text \<open>
  \<open>base64.b64encode\<close> and \<open>base64.b64decode(..., validate=True)\<close> of Python 3.12: the decoder is
  \<open>binascii.a2b_base64\<close> in strict mode, with its state (position in the quad, bits left over, pads
  seen, padding started) as arguments, and with the errors it raises. The contract both
  directions of a response rest on is the locale \<open>text_codec\<close>.
\<close>

definition b2a :: "int \<Rightarrow> int" where
  "b2a i = (if i < 26 then 65 + i else if i < 52 then 71 + i else if i < 62 then i - 4
            else if i = 62 then 43 else 47)"

definition a2b :: "int \<Rightarrow> int option" where
  "a2b c = (if 65 \<le> c \<and> c \<le> 90 then Some (c - 65)
            else if 97 \<le> c \<and> c \<le> 122 then Some (c - 71)
            else if 48 \<le> c \<and> c \<le> 57 then Some (c + 4)
            else if c = 43 then Some 62 else if c = 47 then Some 63 else None)"

fun b64_quads :: "int list \<Rightarrow> pystr" where
  "b64_quads [] = []"
| "b64_quads [a] = [b2a (a div 4), b2a (a mod 4 * 16), 61, 61]"
| "b64_quads [a, b] = [b2a (a div 4), b2a (a mod 4 * 16 + b div 16), b2a (b mod 16 * 4), 61]"
| "b64_quads (a # b # c # r) =
     [b2a (a div 4), b2a (a mod 4 * 16 + b div 16), b2a (b mod 16 * 4 + c div 64), b2a (c mod 64)]
     @ b64_quads r"

definition b64encode :: "bytes \<Rightarrow> pystr" where
  "b64encode bs = b64_quads (map uint bs)"

definition emit :: "int \<Rightarrow> exn + int list \<Rightarrow> exn + int list" where
  "emit b r = (case r of Inl e \<Rightarrow> Inl e | Inr bs \<Rightarrow> Inr (b # bs))"

fun a2b_loop :: "nat \<Rightarrow> int \<Rightarrow> nat \<Rightarrow> bool \<Rightarrow> pystr \<Rightarrow> exn + int list" where
  "a2b_loop quad left pads started [] =
     (if quad = 0 then Inr []
      else if quad = 1 then Inl (BinasciiErr (lit ''Invalid base64-encoded string''))
      else Inl (BinasciiErr (lit ''Incorrect padding'')))"
| "a2b_loop quad left pads started (c # cs) =
     (if c = 61 then
        (if 2 \<le> quad \<and> 4 \<le> quad + Suc pads then
           (if cs \<noteq> [] then Inl (BinasciiErr (lit ''Excess data after padding'')) else Inr [])
         else a2b_loop quad left (if 2 \<le> quad then Suc pads else pads) True cs)
      else
        (case a2b c of
           None \<Rightarrow> Inl (BinasciiErr (lit ''Only base64 data is allowed''))
         | Some v \<Rightarrow>
             (if started then Inl (BinasciiErr (lit ''Discontinuous padding not allowed''))
              else if quad = 0 then a2b_loop 1 v 0 started cs
              else if quad = 1 then emit (left * 4 + v div 16) (a2b_loop 2 (v mod 16) 0 started cs)
              else if quad = 2 then emit (left * 16 + v div 4) (a2b_loop 3 (v mod 4) 0 started cs)
              else emit (left * 64 + v) (a2b_loop 0 0 0 started cs))))"

definition b64decode_validate :: "pystr \<Rightarrow> exn + bytes" where
  "b64decode_validate s =
     (if list_ex (\<lambda>c. 128 \<le> c) s
      then Inl (ValueErr (lit ''string argument should contain only ASCII characters''))
      else if s \<noteq> [] \<and> hd s = 61 then Inl (BinasciiErr (lit ''Leading padding not allowed''))
      else map_sum id (map word_of_int) (a2b_loop 0 0 0 False s))"

lemma emit_Inl [simp]: "emit b r = Inl e \<longleftrightarrow> r = Inl e"
  by (auto simp: emit_def split: sum.splits)

lemma a2b_loop_error: "a2b_loop q l p st s = Inl e \<Longrightarrow> is_ValueError e"
proof (induction q l p st s arbitrary: e rule: a2b_loop.induct)
  case (1 q l p st)
  then show ?case by (auto split: if_splits)
next
  case (2 q l p st c cs)
  then show ?case
    by (auto split: if_splits option.splits)
qed

text \<open>Whatever the decoder raises is a \<open>ValueError\<close> (\<open>binascii.Error\<close> is one): the handlers'
  \<open>except (binascii.Error, ValueError)\<close> misses nothing.\<close>

lemma b64decode_error: "b64decode_validate s = Inl e \<Longrightarrow> is_ValueError e"
  by (auto simp: b64decode_validate_def map_sum_def split: if_splits sum.splits dest: a2b_loop_error)

section \<open>Decoding inverts encoding\<close>

lemma b64decode_plain: "b64decode_validate s = Inl e \<Longrightarrow> \<not> is_HTTPException e"
  by (drule b64decode_error) (cases e; simp)

lemma a2b_b2a: "0 \<le> i \<Longrightarrow> i < 64 \<Longrightarrow> a2b (b2a i) = Some i"
  by (auto simp: a2b_def b2a_def)

lemma b2a_not_pad: "0 \<le> i \<Longrightarrow> i < 64 \<Longrightarrow> b2a i \<noteq> 61 \<and> b2a i < 128"
  by (auto simp: b2a_def)

lemma loop_char:
  assumes "0 \<le> i" and "i < 64"
  shows "a2b_loop 0 l p False (b2a i # cs) = a2b_loop 1 i 0 False cs"
    and "a2b_loop (Suc 0) l p False (b2a i # cs) = emit (l * 4 + i div 16) (a2b_loop 2 (i mod 16) 0 False cs)"
    and "a2b_loop 2 l p False (b2a i # cs) = emit (l * 16 + i div 4) (a2b_loop 3 (i mod 4) 0 False cs)"
    and "a2b_loop 3 l p False (b2a i # cs) = emit (l * 64 + i) (a2b_loop 0 0 0 False cs)"
  using assms by (simp_all add: a2b_b2a b2a_not_pad)

definition is_byte :: "int \<Rightarrow> bool" where
  "is_byte b \<longleftrightarrow> 0 \<le> b \<and> b < 256"

lemma byte_parts:
  assumes "is_byte b"
  shows "0 \<le> b div 4" "b div 4 < 64" "0 \<le> b div 16" "b div 16 < 16" "0 \<le> b div 64" "b div 64 < 4"
  using assms unfolding is_byte_def by presburger+

lemma join_16: "0 \<le> q \<Longrightarrow> q < 16 \<Longrightarrow> (x * 16 + q) div 16 = (x :: int)"
    "0 \<le> q \<Longrightarrow> q < 16 \<Longrightarrow> (x * 16 + q) mod 16 = q"
  by (simp_all add: div_add1_eq mod_add_eq)

lemma join_4: "0 \<le> q \<Longrightarrow> q < 4 \<Longrightarrow> (x * 4 + q) div 4 = (x :: int)"
    "0 \<le> q \<Longrightarrow> q < 4 \<Longrightarrow> (x * 4 + q) mod 4 = q"
  by (simp_all add: div_add1_eq mod_add_eq)

lemma sextet_range:
  fixes x q :: int
  shows "0 \<le> q \<Longrightarrow> q < 16 \<Longrightarrow> 0 \<le> x mod 4 * 16 + q \<and> x mod 4 * 16 + q < 64"
    "0 \<le> q \<Longrightarrow> q < 4 \<Longrightarrow> 0 \<le> x mod 16 * 4 + q \<and> x mod 16 * 4 + q < 64"
    "0 \<le> x mod 64 \<and> x mod 64 < 64" "0 \<le> x mod 4 * 16 \<and> x mod 4 * 16 < 64"
    "0 \<le> x mod 16 * 4 \<and> x mod 16 * 4 < 64"
  using pos_mod_bound [of 4 x] pos_mod_bound [of 16 x] by simp_all

lemmas sextets = byte_parts sextet_range join_16 join_4

lemma a2b_loop_quads:
  "list_all is_byte bs \<Longrightarrow> a2b_loop 0 l p False (b64_quads bs) = Inr bs"
proof (induction bs arbitrary: l p rule: b64_quads.induct)
  case 1
  show ?case by simp
next
  case (2 a)
  then show ?case
    by (simp add: sextets loop_char emit_def del: a2b_loop.simps(2)) simp
next
  case (3 a b)
  then show ?case
    by (simp add: sextets loop_char emit_def del: a2b_loop.simps(2)) simp
next
  case (4 a b c r)
  then show ?case
    by (simp add: sextets loop_char emit_def del: a2b_loop.simps(2))
qed

lemma b64_quads_ascii:
  "list_all is_byte bs \<Longrightarrow> list_all (\<lambda>c. c < 128) (b64_quads bs)"
  by (induction bs rule: b64_quads.induct) (simp_all add: sextets b2a_not_pad)

lemma b64_quads_head:
  "list_all is_byte bs \<Longrightarrow> b64_quads bs = [] \<or> hd (b64_quads bs) \<noteq> 61"
  by (cases bs rule: b64_quads.cases) (simp_all add: sextets b2a_not_pad)

lemma uint_is_byte: "list_all is_byte (map uint (bs :: bytes))"
proof -
  have "is_byte (uint b)" for b :: "8 word"
    using uint_lt2p [of b] by (simp add: is_byte_def)
  then show ?thesis by (simp add: list_all_iff)
qed

lemma b64decode_encode: "b64decode_validate (b64encode bs) = Inr bs"
proof -
  have "\<not> list_ex (\<lambda>c. 128 \<le> c) (b64_quads (map uint bs))"
    using b64_quads_ascii [OF uint_is_byte, of bs] by (fastforce simp: list_ex_iff list_all_iff)
  with b64_quads_head [OF uint_is_byte, of bs] show ?thesis
    by (auto simp: b64decode_validate_def b64encode_def a2b_loop_quads uint_is_byte comp_def)
qed

section \<open>The contract of a text encoding\<close>

locale text_codec =
  fixes enc :: "'a \<Rightarrow> pystr"
    and dec :: "pystr \<Rightarrow> exn + 'a"
  assumes dec_enc: "dec (enc x) = Inr x"
begin

lemma enc_inj: "enc x = enc y \<longleftrightarrow> x = y"
  by (metis dec_enc sum.inject(2))

end

interpretation b64: text_codec b64encode b64decode_validate
  by unfold_locales (rule b64decode_encode)

end
