(* ===== verification/App.thy ===== *)
theory App
  imports Identity Minting Py_Base64
begin

text \<open>
  app.py: the request and response models, the audit line, and the handlers of \<open>/v1/mint\<close>,
  \<open>/v1/renew\<close>, \<open>/v1/keytab\<close>, \<open>/healthz\<close> and \<open>/readyz\<close>, over the state of the service. A handler
  is a call that returns its response or raises; \<open>status_of\<close> is the HTTP status the client sees
  (FastAPI answers 500 for an exception that is not an \<open>HTTPException\<close>). What one request draws
  from outside (libraries, clock readings, a fresh uuid) is its \<open>deps\<close>.
\<close>

section \<open>Requests and responses\<close>

record mint_request =
  rq_username :: pystr
  rq_password :: "pystr option"
  rq_keytab_b64 :: "pystr option"
  rq_lifetime :: "pystr option"
  rq_renewable_lifetime :: "pystr option"

definition exactly_one_credential :: "mint_request \<Rightarrow> exn + mint_request" where
  "exactly_one_credential body =
     (if (rq_password body = None) = (rq_keytab_b64 body = None)
      then Inl (ValueErr (lit ''exactly one of password or keytab_b64 is required''))
      else Inr body)"

record mint_response =
  rs_ccache_b64 :: pystr
  rs_principal :: pystr
  rs_realm :: pystr
  rs_expires_at :: pystr
  rs_renew_until :: "pystr option"

record keytab_request =
  kr_username :: pystr
  kr_password :: pystr

record keytab_response =
  ks_keytab_b64 :: pystr
  ks_principal :: pystr

definition mint_response_of :: "minted_ticket \<Rightarrow> mint_response" where
  "mint_response_of t = \<lparr>rs_ccache_b64 = b64encode (mt_ccache t), rs_principal = mt_principal t,
     rs_realm = mt_realm t, rs_expires_at = isoformat (mt_expires_at t),
     rs_renew_until = map_option isoformat (mt_renew_until t)\<rparr>"

record request =
  bearer :: "pystr option"
  x_request_id :: "pystr option"

record deps =
  d_env :: os_env
  d_krb5 :: krb5_lib
  d_http :: http_lib
  d_jwt :: jwt_lib
  d_uuid :: pystr
  t_jwks :: rat
  t_jwks_locked :: rat
  t_check :: rat
  t_fail :: rat

text \<open>\<open>x or y\<close> on strings: an empty or missing header or field falls through.\<close>

definition str_or :: "pystr option \<Rightarrow> pystr \<Rightarrow> pystr" where
  "str_or x y = (case x of None \<Rightarrow> y | Some s \<Rightarrow> if s = [] then y else s)"

section \<open>The audit line\<close>

definition audit ::
    "json \<Rightarrow> pystr option \<Rightarrow> pystr option \<Rightarrow> json \<Rightarrow> string \<Rightarrow> pystr \<Rightarrow> unit call" where
  "audit subject username who jti outcome rid =
     on_world (log_op LOG_INFO ''audit''
       [(lit ''subject'', subject), (lit ''username'', opt_str username),
        (lit ''principal'', opt_str who), (lit ''jti'', jti),
        (lit ''outcome'', JStr (lit outcome)), (lit ''request_id'', JStr rid)])"

text \<open>An audit line and the \<open>HTTPException\<close> that follows it.\<close>

definition refused ::
    "json \<Rightarrow> pystr option \<Rightarrow> json \<Rightarrow> string \<Rightarrow> pystr \<Rightarrow> int \<Rightarrow> pystr \<Rightarrow> (pystr \<times> pystr) list \<Rightarrow> 'a call" where
  "refused subject username jti outcome rid code detail headers =
     andthen (audit subject username None jti outcome rid)
       (\<lambda>_. throw (HTTPException code detail headers))"

text \<open>The audit line of a success and the response.\<close>

definition issued :: "json \<Rightarrow> pystr option \<Rightarrow> pystr \<Rightarrow> json \<Rightarrow> pystr \<Rightarrow> 'a \<Rightarrow> 'a call" where
  "issued subject username who jti rid response =
     andthen (audit subject username (Some who) jti ''issued'' rid) (\<lambda>_. ret response)"

section \<open>Steps the handlers share\<close>

definition not_authenticated :: "pystr \<Rightarrow> 'a call" where
  "not_authenticated rid = refused JNull None JNull ''denied'' rid 401 (lit ''Not authenticated'')
     [(lit ''WWW-Authenticate'', lit ''Bearer'')]"

definition authenticate ::
    "deps \<Rightarrow> settings \<Rightarrow> pystr \<Rightarrow> pystr option \<Rightarrow> pystr \<Rightarrow> event_dict call" where
  "authenticate x s token username rid =
     catching (verify_broker_token (d_http x) (d_jwt x) s (t_jwks x) (t_jwks_locked x) token)
       (\<lambda>e. case e of
          HTTPException code detail headers \<Rightarrow>
            Some (refused (peek_sub (d_jwt x) token) username JNull
                    (if code = 401 then ''denied'' else ''error'') rid code detail headers)
        | _ \<Rightarrow> None)"

definition claim :: "event_dict \<Rightarrow> string \<Rightarrow> json call" where
  "claim claims name =
     (case map_of claims (lit name) of
        None \<Rightarrow> throw (KeyErr ([39] @ lit name @ [39])) | Some v \<Rightarrow> ret v)"

definition claim_or_none :: "event_dict \<Rightarrow> string \<Rightarrow> json" where
  "claim_or_none claims name = (case map_of claims (lit name) of None \<Rightarrow> JNull | Some v \<Rightarrow> v)"

definition limiter_check :: "pystr \<Rightarrow> rat \<Rightarrow> unit call" where
  "limiter_check u now sv =
     (case check (sv_limiter sv) u now of (r, rl) \<Rightarrow> (r, sv\<lparr>sv_limiter := rl\<rparr>))"

definition limiter_record :: "pystr \<Rightarrow> rat \<Rightarrow> unit call" where
  "limiter_record u now sv = (Inr (), sv\<lparr>sv_limiter := record_failure (sv_limiter sv) u now\<rparr>)"

definition limiter_reset :: "pystr \<Rightarrow> unit call" where
  "limiter_reset u sv = (Inr (), sv\<lparr>sv_limiter := reset (sv_limiter sv) u\<rparr>)"

definition valid_username_or ::
    "pystr \<Rightarrow> json \<Rightarrow> json \<Rightarrow> pystr \<Rightarrow> unit call" where
  "valid_username_or username subject jti rid =
     (case validate_username username of
        Inr _ \<Rightarrow> ret ()
      | Inl e \<Rightarrow> refused subject None jti ''denied'' rid 422 (lit ''invalid username'') [])"

definition under_limit ::
    "deps \<Rightarrow> pystr \<Rightarrow> json \<Rightarrow> json \<Rightarrow> pystr \<Rightarrow> unit call" where
  "under_limit x username subject jti rid =
     catching (limiter_check username (t_check x))
       (\<lambda>e. case e of
          RateLimitedError _ \<Rightarrow>
            Some (refused subject (Some username) jti ''denied'' rid 429 (exn_str e) [])
        | _ \<Rightarrow> None)"

text \<open>\<open>bytearray(...)\<close> of a freshly made \<open>bytes\<close> value.\<close>

definition new_bytearray :: "bytes \<Rightarrow> nat call" where
  "new_bytearray bs = on_world (andthen (alloc (Bytes bs)) (\<lambda>_. alloc (ByteArray bs)))"

definition password_buffer :: "pystr \<Rightarrow> nat call" where
  "password_buffer pw = (case utf8_encode pw of Inl e \<Rightarrow> throw e | Inr bs \<Rightarrow> new_bytearray bs)"

section \<open>POST /v1/mint\<close>

text \<open>The \<open>except\<close> clauses around \<open>mint_ticket\<close>.\<close>

definition mint_failed ::
    "deps \<Rightarrow> pystr \<Rightarrow> json \<Rightarrow> json \<Rightarrow> pystr \<Rightarrow> exn \<Rightarrow> 'a call option" where
  "mint_failed x username subject jti rid e =
     (case e of
        BadPasswordError _ \<Rightarrow>
          Some (andthen (limiter_record username (t_fail x)) (\<lambda>_.
                refused subject (Some username) jti ''denied'' rid 400 (lit ''bad password'') []))
      | BadKeytabError _ \<Rightarrow>
          Some (refused subject (Some username) jti ''denied'' rid 400 (lit ''bad keytab'') [])
      | UnknownPrincipalError _ \<Rightarrow>
          Some (refused subject (Some username) jti ''denied'' rid 400 (lit ''unknown principal'') [])
      | AccountUnusableError _ \<Rightarrow>
          Some (refused subject (Some username) jti ''denied'' rid 403 (exn_str e) [])
      | MintingError _ \<Rightarrow>
          Some (refused subject (Some username) jti ''error'' rid 502 (lit ''Ticket minting failed.'') [])
      | _ \<Rightarrow> None)"

definition valid_lifetimes_or ::
    "pystr \<Rightarrow> pystr \<Rightarrow> pystr \<Rightarrow> json \<Rightarrow> json \<Rightarrow> pystr \<Rightarrow> unit call" where
  "valid_lifetimes_or lifetime renewable username subject jti rid =
     (case (case validate_lifetime lifetime of Inl e \<Rightarrow> Inl e | Inr _ \<Rightarrow> validate_lifetime renewable) of
        Inr _ \<Rightarrow> ret ()
      | Inl e \<Rightarrow> refused subject (Some username) jti ''denied'' rid 422 (lit ''invalid lifetime'') [])"

text \<open>The two buffers: the password's, or the decoded keytab's.\<close>

definition credential_buffers ::
    "mint_request \<Rightarrow> json \<Rightarrow> json \<Rightarrow> pystr \<Rightarrow> (nat option \<times> nat option) call" where
  "credential_buffers body subject jti rid =
     (case rq_password body of
        Some pw \<Rightarrow> andthen (password_buffer pw) (\<lambda>a. ret (Some a, None))
      | None \<Rightarrow>
          (case rq_keytab_b64 body of
             None \<Rightarrow> throw (OtherExn (lit ''AssertionError'') [])
           | Some b64 \<Rightarrow>
               (case b64decode_validate b64 of
                  Inr bs \<Rightarrow> andthen (new_bytearray bs) (\<lambda>a. ret (None, Some a))
                | Inl e \<Rightarrow>
                    if is_ValueError e
                    then refused subject (Some (rq_username body)) jti ''denied'' rid 422
                           (lit ''invalid keytab_b64'') []
                    else throw e)))"

definition mint :: "deps \<Rightarrow> settings \<Rightarrow> request \<Rightarrow> mint_request \<Rightarrow> mint_response call" where
  "mint x s req body =
     (let rid = str_or (x_request_id req) (d_uuid x); username = rq_username body
      in case bearer req of
           None \<Rightarrow> not_authenticated rid
         | Some token \<Rightarrow>
      andthen (authenticate x s token (Some username) rid) (\<lambda>claims.
      andthen (claim claims ''sub'') (\<lambda>subject.
      let jti = claim_or_none claims ''jti'' in
      andthen (valid_username_or username subject jti rid) (\<lambda>_.
      let lifetime = str_or (rq_lifetime body) (default_lifetime s);
          renewable = str_or (rq_renewable_lifetime body) (default_renewable_lifetime s) in
      andthen (valid_lifetimes_or lifetime renewable username subject jti rid) (\<lambda>_.
      andthen (if rq_password body \<noteq> None then under_limit x username subject jti rid else ret ()) (\<lambda>_.
      andthen (credential_buffers body subject jti rid) (\<lambda>(password_buf, keytab_buf).
      andthen
        (catching
           (on_world (mint_ticket (d_env x) (d_krb5 x) s username password_buf lifetime renewable keytab_buf))
           (mint_failed x username subject jti rid)) (\<lambda>minted.
      andthen (if rq_password body \<noteq> None then limiter_reset username else ret ()) (\<lambda>_.
      issued subject (Some username) (mt_principal minted) jti rid (mint_response_of minted))))))))))"

text \<open>The endpoint: FastAPI answers 422 when the body's validator raises, before the handler runs.\<close>

definition post_mint :: "deps \<Rightarrow> settings \<Rightarrow> request \<Rightarrow> mint_request \<Rightarrow> mint_response call" where
  "post_mint x s req body =
     (case exactly_one_credential body of
        Inl e \<Rightarrow> throw (HTTPException 422 (exn_str e) [])
      | Inr b \<Rightarrow> mint x s req b)"

section \<open>POST /v1/renew\<close>

definition renew_refusal :: "json \<Rightarrow> json \<Rightarrow> pystr \<Rightarrow> exn \<Rightarrow> 'a call option" where
  "renew_refusal subject jti rid e =
     (case e of
        CcacheParseError _ \<Rightarrow> Some (refused subject None jti ''denied'' rid 422 (lit ''invalid ccache'') [])
      | TicketExpiredError _ \<Rightarrow> Some (refused subject None jti ''denied'' rid 400 (exn_str e) [])
      | MintingError _ \<Rightarrow> Some (refused subject None jti ''error'' rid 502 (lit ''Ticket renewal failed.'') [])
      | _ \<Rightarrow> None)"

definition renew :: "deps \<Rightarrow> settings \<Rightarrow> request \<Rightarrow> pystr \<Rightarrow> mint_response call" where
  "renew x s req ccache_b64 =
     (let rid = str_or (x_request_id req) (d_uuid x)
      in case bearer req of
           None \<Rightarrow> not_authenticated rid
         | Some token \<Rightarrow>
      andthen (authenticate x s token None rid) (\<lambda>claims.
      andthen (claim claims ''sub'') (\<lambda>subject.
      let jti = claim_or_none claims ''jti'' in
      andthen (case b64decode_validate ccache_b64 of
                 Inr bs \<Rightarrow> ret bs
               | Inl e \<Rightarrow>
                   if is_ValueError e
                   then refused subject None jti ''denied'' rid 422 (lit ''invalid ccache_b64'') []
                   else throw e) (\<lambda>ccache_bytes.
      andthen
        (catching (on_world (renew_ticket (d_env x) (d_krb5 x) s ccache_bytes))
           (renew_refusal subject jti rid)) (\<lambda>minted.
      issued subject None (mt_principal minted) jti rid (mint_response_of minted))))))"

section \<open>POST /v1/keytab\<close>

definition keytab_failed ::
    "deps \<Rightarrow> pystr \<Rightarrow> json \<Rightarrow> json \<Rightarrow> pystr \<Rightarrow> exn \<Rightarrow> 'a call option" where
  "keytab_failed x username subject jti rid e =
     (case e of
        BadPasswordError _ \<Rightarrow>
          Some (andthen (limiter_record username (t_fail x)) (\<lambda>_.
                refused subject (Some username) jti ''denied'' rid 400 (lit ''bad password'') []))
      | MintingError _ \<Rightarrow>
          Some (refused subject (Some username) jti ''error'' rid 502 (lit ''Keytab generation failed.'') [])
      | _ \<Rightarrow> None)"

definition keytab_endpoint ::
    "deps \<Rightarrow> settings \<Rightarrow> request \<Rightarrow> keytab_request \<Rightarrow> keytab_response call" where
  "keytab_endpoint x s req body =
     (let rid = str_or (x_request_id req) (d_uuid x); username = kr_username body
      in case bearer req of
           None \<Rightarrow> not_authenticated rid
         | Some token \<Rightarrow>
      andthen (authenticate x s token (Some username) rid) (\<lambda>claims.
      andthen (claim claims ''sub'') (\<lambda>subject.
      let jti = claim_or_none claims ''jti'' in
      andthen (valid_username_or username subject jti rid) (\<lambda>_.
      andthen (under_limit x username subject jti rid) (\<lambda>_.
      andthen (password_buffer (kr_password body)) (\<lambda>password_buf.
      andthen
        (catching (on_world (mint_keytab (d_env x) s username password_buf))
           (keytab_failed x username subject jti rid)) (\<lambda>keytab_bytes.
      andthen (limiter_reset username) (\<lambda>_.
      let who = username @ lit ''@'' @ default_realm s in
      issued subject (Some username) who jti rid
        \<lparr>ks_keytab_b64 = b64encode keytab_bytes, ks_principal = who\<rparr>))))))))"

section \<open>Probes and assembly\<close>

definition status_of :: "exn + 'a \<Rightarrow> int" where
  "status_of r = (case r of Inr _ \<Rightarrow> 200 | Inl (HTTPException code _ _) \<Rightarrow> code | Inl _ \<Rightarrow> 500)"

definition healthz :: "(pystr \<times> pystr) list call" where
  "healthz = ret [(lit ''status'', lit ''ok'')]"

fun join_with :: "pystr \<Rightarrow> pystr list \<Rightarrow> pystr" where
  "join_with sep [] = []"
| "join_with sep [p] = p"
| "join_with sep (p # q # ps) = p @ sep @ join_with sep (q # ps)"

text \<open>\<open>which\<close> and \<open>can_read\<close> answer \<open>shutil.which\<close> and \<open>os.access\<close>.\<close>

definition readyz ::
    "deps \<Rightarrow> settings \<Rightarrow> (pystr \<Rightarrow> pystr option) \<Rightarrow> (pystr \<Rightarrow> bool) \<Rightarrow> (pystr \<times> pystr) list call" where
  "readyz x s which can_read sv =
     (let p1 = (if which (kinit_bin s) = None
                then [lit ''kinit binary not found or not executable: '' @ kinit_bin s] else []);
          p2 = (if \<not> can_read (krb5_config s)
                then p1 @ [lit ''krb5.conf not readable: '' @ krb5_config s] else p1)
      in case get_jwks (d_http x) s (t_jwks x) (t_jwks_locked x) sv of
           (r, sv1) \<Rightarrow>
             (let p3 = (case r of
                          Inr _ \<Rightarrow> Inr p2
                        | Inl e \<Rightarrow>
                            if is_HTTPException e
                            then Inr (p2 @ [lit ''broker JWKS endpoint unreachable: '' @ broker_jwks_url s])
                            else Inl e)
              in case p3 of
                   Inl e \<Rightarrow> (Inl e, sv1)
                 | Inr problems \<Rightarrow>
                     if problems \<noteq> [] then (Inl (HTTPException 503 (join_with (lit ''; '') problems) []), sv1)
                     else (Inr [(lit ''status'', lit ''ready'')], sv1)))"

record application =
  app_settings :: settings
  app_service :: service
  app_logging :: logging_config

definition empty_world :: world where
  "empty_world = \<lparr>files = Map.empty, dirs = Map.empty, heap = [], spawned = [], logged = []\<rparr>"

definition create_app :: "settings option \<Rightarrow> settings \<Rightarrow> settings option \<Rightarrow> exn + application" where
  "create_app given env_values cached =
     (case (case given of Some s \<Rightarrow> Inr s | None \<Rightarrow> fst (get_settings env_values cached)) of
        Inl e \<Rightarrow> Inl e
      | Inr s \<Rightarrow>
          (case configure_logging (log_level s) of
             Inl e \<Rightarrow> Inl e
           | Inr logging \<Rightarrow>
               Inr \<lparr>app_settings = s,
                    app_service = \<lparr>sv_world = empty_world,
                      sv_limiter = new_rate_limiter (failed_auth_max_attempts s)
                        (of_int (failed_auth_window_seconds s)) (of_int (failed_auth_lockout_seconds s)),
                      sv_jwks = Map.empty\<rparr>,
                    app_logging = logging\<rparr>))"

end
