(* ===== verification/Frames.thy ===== *)
theory Frames
  imports Runtime
begin

text \<open>
  How operations move the world. \<open>state_order\<close> is the interface of a reflexive and transitive
  relation between a state and a later one; an operation keeps it when every run stays inside it,
  and composition preserves that. \<open>world_order\<close> extends it with the operations of
  \<open>Runtime\<close> and is interpreted for the three relations the properties use: what happens to the
  buffers, to the log, and to the processes started.
\<close>

named_theorems keeps_intro

lemma andthen_Inr: "m w = (Inr x, w1) \<Longrightarrow> andthen m f w = f x w1"
  by (simp add: andthen_def)

lemma andthen_Inl: "m w = (Inl e, w1) \<Longrightarrow> andthen m f w = (Inl e, w1)"
  by (simp add: andthen_def)

lemma ret_andthen [simp]: "andthen (ret x) f = f x"
  by (rule ext) (simp add: andthen_def ret_def)

lemma throw_andthen [simp]: "andthen (throw e) f = throw e"
  by (rule ext) (simp add: andthen_def throw_def)

lemma andthen_assoc: "andthen (andthen m f) g = andthen m (\<lambda>x. andthen (f x) g)"
  by (rule ext) (simp add: andthen_def split: sum.split prod.split)

lemma andthen_ret: "andthen m (\<lambda>x. ret (f x)) w = (map_sum id f (fst (m w)), snd (m w))"
  by (cases "m w"; cases "fst (m w)") (simp_all add: andthen_def ret_def)

lemma finally_run: "m w = (r, w1) \<Longrightarrow> c w1 = (Inr (), w2) \<Longrightarrow> finally_do m c w = (r, w2)"
  by (simp add: finally_do_def)

locale state_order =
  fixes R :: "'s \<Rightarrow> 's \<Rightarrow> bool"
  assumes same: "R w w"
    and later: "R u v \<Longrightarrow> R v w \<Longrightarrow> R u w"
begin

definition keeps :: "('s, 'a) act \<Rightarrow> bool" where
  "keeps m \<longleftrightarrow> (\<forall>w. R w (snd (m w)))"

lemma keepsD: "keeps m \<Longrightarrow> m w = (r, w') \<Longrightarrow> R w w'"
  by (metis keeps_def snd_conv)

lemma keeps_here: "(\<And>w. R w (snd (m w))) \<Longrightarrow> keeps m"
  by (simp add: keeps_def)

lemma keeps_ret [keeps_intro]: "keeps (ret x)"
  by (simp add: keeps_def ret_def same)

lemma keeps_throw [keeps_intro]: "keeps (throw e)"
  by (simp add: keeps_def throw_def same)

lemma keeps_andthen [keeps_intro]:
  assumes "keeps m" and "\<And>x. keeps (f x)"
  shows "keeps (andthen m f)"
  unfolding keeps_def
proof
  fix w
  obtain r w1 where m: "m w = (r, w1)" by (cases "m w")
  show "R w (snd (andthen m f w))"
    using keepsD [OF assms(1) m] assms(2) later
    by (cases r) (auto simp: andthen_def m keeps_def)
qed

lemma keeps_catching [keeps_intro]:
  assumes "keeps m" and "\<And>e k. h e = Some k \<Longrightarrow> keeps k"
  shows "keeps (catching m h)"
  unfolding keeps_def
proof
  fix w
  obtain r w1 where m: "m w = (r, w1)" by (cases "m w")
  show "R w (snd (catching m h w))"
    using keepsD [OF assms(1) m] assms(2) later
    by (cases r) (auto simp: catching_def m keeps_def split: option.split)
qed

lemma keeps_try_else [keeps_intro]:
  assumes "keeps m" and "\<And>e g. h e = Some g \<Longrightarrow> keeps g" and "\<And>x. keeps (k x)"
  shows "keeps (try_else m h k)"
  unfolding keeps_def
proof
  fix w
  obtain r w1 where m: "m w = (r, w1)" by (cases "m w")
  show "R w (snd (try_else m h k w))"
    using keepsD [OF assms(1) m] assms(2,3) later
    by (cases r) (auto simp: try_else_def m keeps_def split: option.split)
qed

lemma keeps_reading [keeps_intro]: "(\<And>v. keeps (f v)) \<Longrightarrow> keeps (reading f)"
  by (simp add: keeps_def reading_def)

lemma keeps_finally [keeps_intro]:
  assumes "keeps m" and "keeps c"
  shows "keeps (finally_do m c)"
  unfolding keeps_def
proof
  fix w
  obtain r w1 where m: "m w = (r, w1)" by (cases "m w")
  obtain q w2 where c: "c w1 = (q, w2)" by (cases "c w1")
  show "R w (snd (finally_do m c w))"
    using keepsD [OF assms(1) m] keepsD [OF assms(2) c] later
    by (cases q) (auto simp: finally_do_def m c)
qed

lemma keeps_if [keeps_intro]: "(b \<Longrightarrow> keeps m) \<Longrightarrow> (\<not> b \<Longrightarrow> keeps n) \<Longrightarrow> keeps (if b then m else n)"
  by simp

lemma keeps_option [keeps_intro]:
  "(x = None \<Longrightarrow> keeps m) \<Longrightarrow> (\<And>y. x = Some y \<Longrightarrow> keeps (n y)) \<Longrightarrow>
     keeps (case x of None \<Rightarrow> m | Some y \<Rightarrow> n y)"
  by (cases x) simp_all

lemma keeps_sum [keeps_intro]:
  "(\<And>e. r = Inl e \<Longrightarrow> keeps (f e)) \<Longrightarrow> (\<And>x. r = Inr x \<Longrightarrow> keeps (g x)) \<Longrightarrow>
     keeps (case r of Inl e \<Rightarrow> f e | Inr x \<Rightarrow> g x)"
  by (cases r) simp_all

lemma keeps_pair [keeps_intro]: "(\<And>a b. keeps (f a b)) \<Longrightarrow> keeps (case p of (a, b) \<Rightarrow> f a b)"
  by (cases p) simp

end

text \<open>The same over worlds, with the operations of \<open>Runtime\<close>.\<close>

locale world_order = state_order R for R :: "world \<Rightarrow> world \<Rightarrow> bool"
begin

lemma keeps_deref [keeps_intro]: "keeps (deref a)"
  by (simp add: keeps_def deref_def same)

lemma keeps_with_fault [keeps_intro]: "keeps m \<Longrightarrow> keeps (with_fault env c m)"
  unfolding with_fault_def by (intro keeps_intro)

lemma keeps_with_tmpdir:
  "keeps (mkdtemp env) \<Longrightarrow> (\<And>d. keeps (rmtree env d)) \<Longrightarrow> (\<And>d. keeps (body d)) \<Longrightarrow>
     keeps (with_tmpdir env body)"
  unfolding with_tmpdir_def by (intro keeps_intro)

end

section \<open>Buffers\<close>

text \<open>Nothing is overwritten; only immutable copies are added.\<close>

definition heap_frame :: "world \<Rightarrow> world \<Rightarrow> bool" where
  "heap_frame w w' \<longleftrightarrow> (\<exists>bs. heap w' = heap w @ map Bytes bs)"

interpretation hp: world_order heap_frame
proof
  show "heap_frame w w" for w by (auto simp: heap_frame_def)
  show "heap_frame u w" if "heap_frame u v" "heap_frame v w" for u v w
    using that by (auto simp: heap_frame_def simp flip: map_append)
qed

section \<open>Log and processes\<close>

definition log_frame :: "(log_event \<Rightarrow> bool) \<Rightarrow> world \<Rightarrow> world \<Rightarrow> bool" where
  "log_frame P w w' \<longleftrightarrow> (\<exists>es. logged w' = logged w @ es \<and> list_all P es)"

interpretation lg: world_order "log_frame P" for P
proof
  show "log_frame P w w" for w by (auto simp: log_frame_def)
  show "log_frame P u w" if "log_frame P u v" "log_frame P v w" for u v w
    using that by (auto simp: log_frame_def)
qed

definition spawn_frame :: "world \<Rightarrow> world \<Rightarrow> bool" where
  "spawn_frame w w' \<longleftrightarrow> spawned w' = spawned w"

interpretation sp: world_order spawn_frame
  by unfold_locales (simp_all add: spawn_frame_def)


lemmas io_prims = mkdir_def write_bytes_def chmod_def read_bytes_def rmtree_def

lemma hp_prims [keeps_intro]:
  "hp.keeps (mkdir env p)" "hp.keeps (write_bytes env p bs)" "hp.keeps (chmod env p m)"
  "hp.keeps (read_bytes env p)" "hp.keeps (rmtree env p)" "hp.keeps (mkdtemp env)"
  "hp.keeps (log_op l n d)" "hp.keeps (run_child env cmd)"
  unfolding io_prims
  by (intro hp.keeps_with_fault hp.keeps_here;
      simp add: heap_frame_def mkdtemp_def log_op_def alloc_def run_child_def
        split: option.split sum.split child_result.split prod.split)+

lemma hp_alloc [keeps_intro]: "hp.keeps (alloc (Bytes b))"
  by (rule hp.keeps_here) (auto simp: heap_frame_def alloc_def intro!: exI [of _ "[b]"])

lemma lg_prims [keeps_intro]:
  "lg.keeps P (mkdir env p)" "lg.keeps P (write_bytes env p bs)" "lg.keeps P (chmod env p m)"
  "lg.keeps P (read_bytes env p)" "lg.keeps P (rmtree env p)" "lg.keeps P (mkdtemp env)"
  "lg.keeps P (alloc obj)" "lg.keeps P (append_bytes a bs)" "lg.keeps P (run_child env cmd)"
  "P (log_call l n d) \<Longrightarrow> lg.keeps P (log_op l n d)"
  unfolding io_prims
  by (intro lg.keeps_with_fault lg.keeps_here;
      simp add: log_frame_def mkdtemp_def log_op_def alloc_def append_bytes_def run_child_def
        split: option.split sum.split child_result.split prod.split)+

lemma sp_prims [keeps_intro]:
  "sp.keeps (mkdir env p)" "sp.keeps (write_bytes env p bs)" "sp.keeps (chmod env p m)"
  "sp.keeps (read_bytes env p)" "sp.keeps (rmtree env p)" "sp.keeps (mkdtemp env)"
  "sp.keeps (alloc obj)" "sp.keeps (append_bytes a bs)" "sp.keeps (log_op l n d)"
  unfolding io_prims
  by (intro sp.keeps_with_fault sp.keeps_here;
      simp add: spawn_frame_def mkdtemp_def log_op_def alloc_def append_bytes_def
        split: option.split sum.split prod.split)+


lemmas tmpdir_intro [keeps_intro] =
  hp.keeps_with_tmpdir [OF hp_prims(6,5)]
  lg.keeps_with_tmpdir [OF lg_prims(6,5)]
  sp.keeps_with_tmpdir [OF sp_prims(6,5)]

definition not_audit :: "log_event \<Rightarrow> bool" where
  "not_audit e \<longleftrightarrow> event e \<noteq> lit ''audit''"

lemma not_audit_call [simp]: "not_audit (log_call l n d) \<longleftrightarrow> n \<noteq> ''audit''"
  by (simp add: not_audit_def log_call_def)

lemma subprocess_failure_cases:
  assumes "subprocess_failure b c t e = Some k"
  obtains l n d m where "k = andthen (log_op l n d) (\<lambda>_. throw (MintingError m))" and "n \<noteq> ''audit''"
  using assms by (auto simp: subprocess_failure_def split: exn.splits)

lemma run_subprocess_keeps [keeps_intro]:
  "hp.keeps (run_subprocess env args i t b c ce)"
  "lg.keeps not_audit (run_subprocess env args i t b c ce)"
  unfolding run_subprocess_def
  by (rule hp.keeps_catching lg.keeps_catching, rule keeps_intro,
      erule subprocess_failure_cases, simp, intro keeps_intro, simp?)+

section \<open>Starting at most one process\<close>

definition starts :: "invocation \<Rightarrow> 'a op \<Rightarrow> world \<Rightarrow> bool" where
  "starts c m w \<longleftrightarrow> spawned (snd (m w)) = spawned w \<or> spawned (snd (m w)) = spawned w @ [c]"

lemma sp_run: "sp.keeps m \<Longrightarrow> spawned (snd (m w)) = spawned w"
  by (simp add: sp.keeps_def spawn_frame_def)

lemma starts_late:
  assumes "sp.keeps m" and "\<And>x w1. m w = (Inr x, w1) \<Longrightarrow> starts c (f x) w1"
  shows "starts c (andthen m f) w"
proof (cases "m w")
  case (Pair r w1)
  then have "spawned w1 = spawned w" using sp_run [OF assms(1), of w] by simp
  with Pair assms(2) show ?thesis
    by (cases r) (auto simp: starts_def andthen_def)
qed

lemma starts_early:
  assumes "starts c m w" and "\<And>x. sp.keeps (f x)"
  shows "starts c (andthen m f) w"
proof (cases "m w")
  case (Pair r w1)
  with assms sp_run [OF assms(2)] show ?thesis
    by (cases r) (auto simp: starts_def andthen_def)
qed

lemma starts_finally:
  assumes "starts c m w" and "sp.keeps k"
  shows "starts c (finally_do m k) w"
proof (cases "m w")
  case (Pair r w1)
  with assms(1) sp_run [OF assms(2), of w1] show ?thesis
    by (cases "k w1"; cases "fst (k w1)") (auto simp: starts_def finally_do_def)
qed

lemma starts_with_tmpdir:
  assumes "\<And>d w1. fresh_dir env = Inr d \<Longrightarrow> heap w1 = heap w \<Longrightarrow> spawned w1 = spawned w \<Longrightarrow>
    starts (c d) (body d) w1"
  shows "(case fresh_dir env of
      Inl e \<Rightarrow> spawned (snd (with_tmpdir env body w)) = spawned w
    | Inr d \<Rightarrow> starts (c d) (with_tmpdir env body) w)"
proof (cases "fresh_dir env")
  case (Inl e)
  then show ?thesis by (simp add: with_tmpdir_def mkdtemp_def andthen_def)
next
  case (Inr d)
  have "starts (c d) (\<lambda>w. finally_do (body d) (rmtree env d) w) (w\<lparr>dirs := (dirs w)(d \<mapsto> 448)\<rparr>)"
    by (intro starts_finally assms Inr sp_prims) simp_all
  with Inr show ?thesis
    by (simp add: with_tmpdir_def mkdtemp_def andthen_def starts_def)
qed

lemma starts_run_subprocess:
  "starts \<lparr>argv = args, stdin = i, timeout = t, child_environ = ce\<rparr>
     (run_subprocess env args i t b ctx ce) w"
proof -
  let ?c = "\<lparr>argv = args, stdin = i, timeout = t, child_environ = ce\<rparr>"
  obtain r w1 where r: "run_child env ?c w = (r, w1)" by (cases "run_child env ?c w")
  then have "spawned w1 = spawned w \<or> spawned w1 = spawned w @ [?c]"
    by (auto simp: run_child_def split: option.splits prod.splits child_result.splits)
  moreover have "spawned (snd (k w1)) = spawned w1"
    if "subprocess_failure b ctx t e = Some k" for e k
    by (rule subprocess_failure_cases [OF that]) (simp add: andthen_def log_op_def throw_def)
  ultimately show ?thesis
    using r by (cases r) (auto simp: starts_def run_subprocess_def catching_def split: option.split)
qed

end
