(* ===== verification/Minting_Spec.thy ===== *)
theory Minting_Spec
  imports Minting Frames
begin

text \<open>
  What the operations of \<open>Minting\<close> do to the secret buffers, the processes, the files and the log,
  and what they return on every branch.
\<close>

section \<open>Concrete worlds\<close>

text \<open>For evaluation on concrete inputs: nothing fails but what the child does.\<close>

definition scripted_env ::
    "(invocation \<Rightarrow> (pystr \<rightharpoonup> file_node) \<Rightarrow> child_result \<times> (pystr \<rightharpoonup> file_node)) \<Rightarrow> os_env" where
  "scripted_env c = \<lparr>fault = (\<lambda>_. None), fresh_dir = Inr (lit ''/tmp/krb5cc/t''), file_mode = 420,
     environ = [(lit ''PATH'', lit ''/bin'')], executable = lit ''/usr/bin/python3'', child = c\<rparr>"

definition world_with :: "pyobj list \<Rightarrow> world" where
  "world_with h = \<lparr>files = Map.empty, dirs = Map.empty, heap = h, spawned = [], logged = []\<rparr>"

section \<open>Zeroing\<close>

definition zeros :: "nat \<Rightarrow> bytes" where
  "zeros n = replicate n 0"

lemma zero_loop_run:
  "a < length (heap w) \<Longrightarrow> heap w ! a = ByteArray b \<Longrightarrow> i + n = length b \<Longrightarrow>
     zero_loop a i n w = (Inr (), w\<lparr>heap := (heap w)[a := ByteArray (take i b @ zeros n)]\<rparr>)"
proof (induction n arbitrary: i w b)
  case 0
  then have "(heap w)[a := ByteArray b] = heap w" by (simp add: list_update_same_conv)
  with 0 show ?case by (simp add: ret_def zeros_def)
next
  case (Suc n)
  let ?w = "w\<lparr>heap := (heap w)[a := ByteArray (b[i := 0])]\<rparr>"
  have "zero_loop a (Suc i) n ?w =
      (Inr (), ?w\<lparr>heap := (heap ?w)[a := ByteArray (take (Suc i) (b[i := 0]) @ zeros n)]\<rparr>)"
    by (rule Suc.IH) (use Suc.prems in auto)
  moreover have "take (Suc i) (b[i := 0]) @ zeros n = take i b @ zeros (Suc n)"
    using Suc.prems(3) by (simp add: take_Suc_conv_app_nth zeros_def)
  ultimately show ?case
    using Suc.prems by (simp add: andthen_def store_def)
qed

lemma zero_bytearray_run:
  "a < length (heap w) \<Longrightarrow> heap w ! a = ByteArray b \<Longrightarrow>
     zero_bytearray a w = (Inr (), w\<lparr>heap := (heap w)[a := ByteArray (zeros (length b))]\<rparr>)"
  using zero_loop_run [of a w b 0 "length b"]
  by (simp add: zero_bytearray_def andthen_def deref_def)

text \<open>Whatever the address holds, only the buffers change and the operation returns.\<close>

lemma zero_bytearray_any:
  "\<exists>h. length h = length (heap w) \<and> zero_bytearray a w = (Inr (), w\<lparr>heap := h\<rparr>)"
proof -
  have "\<exists>h. length h = length (heap w) \<and> zero_loop a i n w = (Inr (), w\<lparr>heap := h\<rparr>)" for i n w
  proof (induction n arbitrary: i w)
    case 0
    show ?case by (simp add: ret_def exI [of _ "heap w"])
  next
    case (Suc n)
    obtain h where "length h = length (heap (snd (store a i 0 w)))"
      "zero_loop a (Suc i) n (snd (store a i 0 w)) = (Inr (), (snd (store a i 0 w))\<lparr>heap := h\<rparr>)"
      using Suc.IH by blast
    then show ?case by (intro exI [of _ h]) (simp add: store_def andthen_def)
  qed
  then show ?thesis by (simp add: zero_bytearray_def andthen_def deref_def)
qed

lemma zero_if_given_any:
  "\<exists>h. length h = length (heap w) \<and> zero_if_given a w = (Inr (), w\<lparr>heap := h\<rparr>)"
proof (cases a)
  case None
  then show ?thesis by (simp add: zero_if_given_def ret_def exI [of _ "heap w"])
next
  case (Some b)
  then show ?thesis using zero_bytearray_any by (simp add: zero_if_given_def)
qed

lemma zero_then_any:
  assumes "\<And>w. \<exists>h. length h = length (heap w) \<and> c w = (Inr (), w\<lparr>heap := h\<rparr>)"
    and "\<And>w. \<exists>h. length h = length (heap w) \<and> c' w = (Inr (), w\<lparr>heap := h\<rparr>)"
  shows "\<exists>h. length h = length (heap w) \<and> andthen c (\<lambda>_. c') w = (Inr (), w\<lparr>heap := h\<rparr>)"
proof -
  obtain h where h: "length h = length (heap w)" "c w = (Inr (), w\<lparr>heap := h\<rparr>)" using assms(1) by blast
  obtain h' where h': "length h' = length (heap (w\<lparr>heap := h\<rparr>))"
    "c' (w\<lparr>heap := h\<rparr>) = (Inr (), w\<lparr>heap := h\<rparr>\<lparr>heap := h'\<rparr>)" using assms(2) by blast
  show ?thesis
    by (intro exI [of _ h']) (use h h' in \<open>simp add: andthen_def\<close>)
qed

lemmas zeroing_any = zero_then_any zero_if_given_any zero_bytearray_any

lemma stdin_buffer_run:
  "stdin_buffer p w = (Inr (length (heap w)), w\<lparr>heap := heap w @ [ByteArray (raw (heap w ! p) @ [10])]\<rparr>)"
  by (simp add: stdin_buffer_def andthen_def deref_def alloc_def append_bytes_def ret_def)

section \<open>Frames of the minting operations\<close>

lemma bytes_of_keeps [keeps_intro]:
  "hp.keeps (bytes_of a)" "lg.keeps P (bytes_of a)" "sp.keeps (bytes_of a)"
  unfolding bytes_of_def by (intro keeps_intro)+

lemma parse_ccache_keeps [keeps_intro]:
  "hp.keeps (parse_ccache lib p)" "lg.keeps P (parse_ccache lib p)" "sp.keeps (parse_ccache lib p)"
  by (intro hp.keeps_here lg.keeps_here sp.keeps_here,
      simp add: parse_ccache_def hp.same lg.same sp.same)+

lemma failed_keeps [keeps_intro]:
  "hp.keeps (kinit_failed u k rc err)" "lg.keeps not_audit (kinit_failed u k rc err)"
  "sp.keeps (kinit_failed u k rc err)"
  "hp.keeps (renew_failed rc err)" "lg.keeps not_audit (renew_failed rc err)"
  "sp.keeps (renew_failed rc err)"
  "hp.keeps (cern_get_keytab_failed u rc err)" "lg.keeps not_audit (cern_get_keytab_failed u rc err)"
  "sp.keeps (cern_get_keytab_failed u rc err)"
  unfolding kinit_failed_def renew_failed_def cern_get_keytab_failed_def Let_def
  by (intro keeps_intro; simp)+

lemma no_output_cases:
  assumes "no_output n d m e = Some k"
  obtains "k = andthen (log_op LOG_ERROR n d) (\<lambda>_. throw (MintingError m))"
  using assms by (auto simp: no_output_def split: exn.splits)

lemma read_or_fail_keeps [keeps_intro]:
  "hp.keeps (catching (read_bytes env p) (no_output n d m))"
  "n \<noteq> ''audit'' \<Longrightarrow> lg.keeps not_audit (catching (read_bytes env p) (no_output n d m))"
  "sp.keeps (catching (read_bytes env p) (no_output n d m))"
  by (rule hp.keeps_catching lg.keeps_catching sp.keeps_catching, rule keeps_intro,
      erule no_output_cases, simp, intro keeps_intro, simp?)+

lemma require_nonempty_keeps [keeps_intro]:
  "hp.keeps (require_nonempty n d m bs)"
  "n \<noteq> ''audit'' \<Longrightarrow> lg.keeps not_audit (require_nonempty n d m bs)"
  "sp.keeps (require_nonempty n d m bs)"
  unfolding require_nonempty_def by (intro keeps_intro; simp)+

lemma in_tmpdir_keeps_heap [keeps_intro]:
  "hp.keeps (mint_from_kinit env lib s u kt cp args i)"
  "hp.keeps (mint_in_tmpdir env lib s u l r p k d)"
  "hp.keeps (renew_in_tmpdir env lib s c d)"
  "hp.keeps (keytab_in_tmpdir env s u a d)"
  unfolding mint_from_kinit_def mint_in_tmpdir_def renew_in_tmpdir_def keytab_in_tmpdir_def Let_def
  by (intro keeps_intro)+

lemma in_tmpdir_keeps_log [keeps_intro]:
  "lg.keeps not_audit (mint_from_kinit env lib s u kt cp args i)"
  "lg.keeps not_audit (mint_in_tmpdir env lib s u l r p k d)"
  "lg.keeps not_audit (renew_in_tmpdir env lib s c d)"
  "lg.keeps not_audit (keytab_in_tmpdir env s u a d)"
  unfolding mint_from_kinit_def mint_in_tmpdir_def renew_in_tmpdir_def keytab_in_tmpdir_def Let_def
  by (intro keeps_intro; simp)+

section \<open>Every secret buffer ends zeroed\<close>

lemma case_prod_ret: "(\<lambda>(x, y). ret (f x y)) = (\<lambda>p. ret (case p of (x, y) \<Rightarrow> f x y))"
  by auto

lemma finally_zero:
  assumes "hp.keeps m" and "\<And>w1. heap_frame w w1 \<Longrightarrow> \<exists>w2. c w1 = (Inr (), w2) \<and> heap w2 = g (heap w1)"
    and "\<And>bs. g (heap w @ map Bytes bs) = h @ map Bytes bs"
  shows "\<exists>bs. heap (snd (finally_do m c w)) = h @ map Bytes bs
    \<and> heap (snd (m w)) = heap w @ map Bytes bs"
proof -
  obtain r w1 where m: "m w = (r, w1)" by (cases "m w")
  with assms(1) have f: "heap_frame w w1" by (rule hp.keepsD)
  then obtain bs where "heap w1 = heap w @ map Bytes bs" by (auto simp: heap_frame_def)
  with assms(2) [OF f] assms(3) show ?thesis
    by (auto simp: finally_do_def m)
qed

lemma mkdir_run:
  "fault env (Mkdir p) = None \<Longrightarrow> \<exists>w1. mkdir env p w = (Inr (), w1) \<and> heap w1 = heap w
     \<and> files w1 = files w \<and> spawned w1 = spawned w \<and> logged w1 = logged w"
  by (simp add: mkdir_def with_fault_def)

lemma two_buffers_zeroed:
  assumes m: "hp.keeps m" and a: "a < length (heap w)" "heap w ! a = ByteArray pw"
    and n: "n = length (heap w)"
  shows "\<exists>bs. heap (snd (finally_do m (andthen (zero_bytearray n) (\<lambda>_. zero_bytearray a))
      (w\<lparr>heap := heap w @ [ByteArray (pw @ [10])]\<rparr>))) =
    ((heap w)[a := ByteArray (zeros (length pw))] @ [ByteArray (zeros (Suc (length pw)))]) @ map Bytes bs
    \<and> heap (snd (m (w\<lparr>heap := heap w @ [ByteArray (pw @ [10])]\<rparr>))) =
      heap (w\<lparr>heap := heap w @ [ByteArray (pw @ [10])]\<rparr>) @ map Bytes bs"
    (is "\<exists>bs. heap (snd (finally_do m ?c ?w2)) = _ bs \<and> _ bs")
proof (rule finally_zero [where g = "\<lambda>h. h[n := ByteArray (zeros (Suc (length pw))),
      a := ByteArray (zeros (length pw))]", OF m])
  fix w1
  assume "heap_frame ?w2 w1"
  then obtain bs where h: "heap w1 = heap w @ ByteArray (pw @ [10]) # map Bytes bs"
    by (auto simp: heap_frame_def)
  let ?x = "(heap w1)[n := ByteArray (zeros (Suc (length pw)))]"
  have "zero_bytearray n w1 = (Inr (), w1\<lparr>heap := ?x\<rparr>)"
    using zero_bytearray_run [of n w1 "pw @ [10]"] by (simp add: h n)
  moreover have "zero_bytearray a (w1\<lparr>heap := ?x\<rparr>) =
      (Inr (), w1\<lparr>heap := ?x[a := ByteArray (zeros (length pw))]\<rparr>)"
    using zero_bytearray_run [of a "w1\<lparr>heap := ?x\<rparr>" pw] a by (simp add: h n nth_append)
  ultimately show "\<exists>w2. ?c w1 = (Inr (), w2) \<and> heap w2 =
      (heap w1)[n := ByteArray (zeros (Suc (length pw))), a := ByteArray (zeros (length pw))]"
    by (simp add: andthen_Inr)
qed (use a in \<open>simp add: n list_update_append\<close>)

lemma one_buffer_zeroed:
  assumes m: "hp.keeps m" and a: "a < length (heap w)" "heap w ! a = ByteArray b"
  shows "\<exists>bs. heap (snd (finally_do m (zero_bytearray a) w)) =
    (heap w)[a := ByteArray (zeros (length b))] @ map Bytes bs
    \<and> heap (snd (m w)) = heap w @ map Bytes bs"
proof (rule finally_zero [where g = "\<lambda>h. h[a := ByteArray (zeros (length b))]", OF m])
  fix w1
  assume "heap_frame w w1"
  with a have "a < length (heap w1)" "heap w1 ! a = ByteArray b"
    by (auto simp: heap_frame_def nth_append)
  then show "\<exists>w2. zero_bytearray a w1 = (Inr (), w2) \<and> heap w2 = (heap w1)[a := ByteArray (zeros (length b))]"
    by (simp add: zero_bytearray_run)
qed (use a in \<open>simp add: list_update_append\<close>)

lemma zero_chain:
  "andthen (zero_if_given (Some n)) (\<lambda>_. andthen (zero_if_given (Some a)) (\<lambda>_. zero_if_given None))
    = andthen (zero_bytearray n) (\<lambda>_. zero_bytearray a)"
  "andthen (zero_if_given None) (\<lambda>_. andthen (zero_if_given None) (\<lambda>_. zero_if_given (Some a)))
    = zero_bytearray a"
  by (rule ext; simp add: zero_if_given_def andthen_def ret_def split: sum.split prod.split)+

lemmas mint_run = mint_ticket_def andthen_Inr stdin_buffer_run case_prod_ret andthen_ret zero_chain

lemma mint_ticket_zeroes:
  assumes "fault env (Mkdir (ccache_tmp_root s)) = None"
    and "a < length (heap w)" and "heap w ! a = ByteArray secret"
  shows "(\<exists>bs. heap (snd (mint_ticket env lib s u (Some a) l r None w)) =
      (heap w)[a := ByteArray (zeros (length secret))]
        @ [ByteArray (zeros (Suc (length secret)))] @ map Bytes bs)
    \<and> (\<exists>bs. heap (snd (mint_ticket env lib s u None l r (Some a) w)) =
      (heap w)[a := ByteArray (zeros (length secret))] @ map Bytes bs)"
proof -
  obtain w1 where w1: "mkdir env (ccache_tmp_root s) w = (Inr (), w1)" "heap w1 = heap w"
    using mkdir_run [OF assms(1)] by blast
  have k: "hp.keeps (with_tmpdir env (mint_in_tmpdir env lib s u l r p k))" for p k
    by (intro keeps_intro)
  show ?thesis
    using two_buffers_zeroed [OF k, of a w1 secret] one_buffer_zeroed [OF k, of a w1 secret] assms w1
    by (simp add: mint_run) blast
qed

lemma mint_keytab_zeroes:
  assumes "fault env (Mkdir (ccache_tmp_root s)) = None"
    and "a < length (heap w)" and "heap w ! a = ByteArray pw"
  shows "\<exists>bs. heap (snd (mint_keytab env s u a w)) =
    (heap w)[a := ByteArray (zeros (length pw))] @ [ByteArray (zeros (Suc (length pw)))] @ map Bytes bs"
proof -
  obtain w1 where w1: "mkdir env (ccache_tmp_root s) w = (Inr (), w1)" "heap w1 = heap w"
    using mkdir_run [OF assms(1)] by blast
  have k: "hp.keeps (with_tmpdir env (keytab_in_tmpdir env s u p))" for p
    by (intro keeps_intro)
  show ?thesis
    using two_buffers_zeroed [OF k, of a w1 pw] assms w1
    by (simp add: mint_keytab_def andthen_Inr stdin_buffer_run) blast
qed

text \<open>
  C20: whatever way \<open>mint_ticket\<close> or \<open>mint_keytab\<close> ends once the staging root exists, the credential
  buffer it was given is all zeros, so is the stdin buffer it built from a password, no other buffer
  of the caller is touched, and what else it leaves in memory are immutable copies.
\<close>

theorem credentials_zeroed:
  assumes "fault env (Mkdir (ccache_tmp_root s)) = None"
    and "a < length (heap w)" and "heap w ! a = ByteArray secret"
  shows "(\<exists>bs. heap (snd (mint_ticket env lib s u (Some a) l r None w)) =
      (heap w)[a := ByteArray (zeros (length secret))]
        @ [ByteArray (zeros (Suc (length secret)))] @ map Bytes bs)
    \<and> (\<exists>bs. heap (snd (mint_ticket env lib s u None l r (Some a) w)) =
      (heap w)[a := ByteArray (zeros (length secret))] @ map Bytes bs)
    \<and> (\<exists>bs. heap (snd (mint_keytab env s u a w)) =
      (heap w)[a := ByteArray (zeros (length secret))] @ [ByteArray (zeros (Suc (length secret)))] @ map Bytes bs)"
  using mint_ticket_zeroes [OF assms] mint_keytab_zeroes [OF assms] by blast

theorem credentials_zeroed_witness:
  "\<exists>env bs. heap (snd (mint_keytab env default_settings (lit ''u'') 0
      (world_with [ByteArray [112, 119]]))) = [ByteArray [0, 0], ByteArray [0, 0, 0]] @ map Bytes bs"
proof -
  let ?env = "scripted_env (\<lambda>_ fs. (TimedOut, fs))"
  show ?thesis
    using credentials_zeroed [of ?env default_settings 0 "(world_with [ByteArray [112, 119]])" "[112, 119]"]
    by (simp add: scripted_env_def world_with_def zeros_def numeral_2_eq_2 numeral_3_eq_3) blast
qed

text \<open>
  C40: when the staging root cannot be created the credential is not zeroed: \<open>mkdir\<close> comes
  before the \<open>try\<close>, so the \<open>OSError\<close> leaves all three operations with the world as it was.
\<close>

theorem mkdir_failure_skips_zeroing:
  assumes "fault env (Mkdir (ccache_tmp_root s)) = Some msg"
  shows "mint_ticket env lib s u (Some a) l r None w = (Inl (OSErr msg), w)
    \<and> mint_ticket env lib s u None l r (Some a) w = (Inl (OSErr msg), w)
    \<and> mint_keytab env s u a w = (Inl (OSErr msg), w)"
  using assms
  by (simp add: mint_ticket_def mint_keytab_def mkdir_def with_fault_def throw_def andthen_def)

theorem mkdir_failure_skips_zeroing_witness:
  "\<exists>env. mint_keytab env default_settings (lit ''u'') 0
      (world_with [ByteArray [112, 119]])
    = (Inl (OSErr (lit ''Read-only file system'')),
      (world_with [ByteArray [112, 119]]))"
proof -
  let ?env = "(scripted_env (\<lambda>_ fs. (TimedOut, fs)))
    \<lparr>fault := (\<lambda>_. Some (lit ''Read-only file system''))\<rparr>"
  show ?thesis
    using mkdir_failure_skips_zeroing [of ?env default_settings "lit ''Read-only file system''"]
    by (intro exI [of _ ?env]) (simp add: scripted_env_def)
qed

end
