(* ===== verification/Minting_Calls.thy ===== *)
theory Minting_Calls
  imports Minting_Spec
begin

text \<open>
  What the minting operations hand to their child processes: exactly one command line each, in
  which no secret occurs, and the standard input.
\<close>

definition kinit_args :: "settings \<Rightarrow> pystr \<Rightarrow> pystr \<Rightarrow> pystr \<Rightarrow> bool \<Rightarrow> pystr \<Rightarrow> pystr list" where
  "kinit_args s u l r with_keytab d =
     [kinit_bin s, lit ''-c'', lit ''FILE:'' @ join_path d ''ccache'']
     @ (if with_keytab then [lit ''-k'', lit ''-t'', join_path d ''keytab''] else [])
     @ [lit ''-l'', l, lit ''-r'', r, principal_of u s]"

definition kinit_call ::
    "os_env \<Rightarrow> settings \<Rightarrow> pystr list \<Rightarrow> bytes option \<Rightarrow> invocation" where
  "kinit_call env s args input = \<lparr>argv = args, stdin = input, timeout = kinit_timeout_seconds s,
     child_environ = krb5_environ env s\<rparr>"

lemma store_keeps [keeps_intro]: "sp.keeps (store a i v)" "lg.keeps P (store a i v)"
  by (intro sp.keeps_here lg.keeps_here, simp add: store_def spawn_frame_def log_frame_def)+

lemma zero_loop_keeps [keeps_intro]: "sp.keeps (zero_loop a i n)" "lg.keeps P (zero_loop a i n)"
proof -
  have "sp.keeps (zero_loop a i n) \<and> lg.keeps P (zero_loop a i n)"
    by (induction n arbitrary: i)
      (simp_all add: sp.keeps_ret lg.keeps_ret sp.keeps_andthen lg.keeps_andthen store_keeps)
  then show "sp.keeps (zero_loop a i n)" "lg.keeps P (zero_loop a i n)" by simp_all
qed

lemma zeroing_keeps [keeps_intro]: "sp.keeps (zero_bytearray a)" "lg.keeps P (zero_bytearray a)"
  unfolding zero_bytearray_def by (intro keeps_intro)+

lemma zero_if_given_keeps [keeps_intro]: "sp.keeps (zero_if_given a)" "lg.keeps P (zero_if_given a)"
  unfolding zero_if_given_def by (intro keeps_intro)+

lemma stdin_buffer_keeps [keeps_intro]: "sp.keeps (stdin_buffer a)" "lg.keeps P (stdin_buffer a)"
  unfolding stdin_buffer_def by (intro keeps_intro)+

lemma starts_kinit:
  "starts (kinit_call env s args i) (mint_from_kinit env lib s u kt cp args i) w"
  unfolding mint_from_kinit_def kinit_call_def Let_def
  by (intro starts_early starts_run_subprocess keeps_intro)

lemma bytes_of_run:
  "bytes_of a w = (Inr (raw (heap w ! a)), w\<lparr>heap := heap w @ [Bytes (raw (heap w ! a))]\<rparr>)"
  by (simp add: bytes_of_def andthen_def deref_def alloc_def ret_def)

lemma option_bytes_run:
  assumes "(case p of None \<Rightarrow> ret None | Some a \<Rightarrow> andthen (bytes_of a) (\<lambda>b. ret (Some b))) w = (Inr x, w1)"
  shows "x = map_option (\<lambda>a. raw (heap w ! a)) p"
  using assms by (cases p) (auto simp: ret_def andthen_ret bytes_of_run)

lemma starts_mint_in_tmpdir:
  assumes "k \<noteq> None \<Longrightarrow> p = None"
  shows "starts (kinit_call env s (kinit_args s u l r (k \<noteq> None) d)
       (map_option (\<lambda>a. raw (heap w ! a)) p)) (mint_in_tmpdir env lib s u l r p k d) w"
  unfolding mint_in_tmpdir_def Let_def
proof (rule starts_late, goal_cases)
  case 1
  show ?case by (intro keeps_intro)
next
  case (2 argv1 w1)
  have w1: "p = None \<or> w1 = w"
    and args: "argv1 @ [lit ''-l'', l, lit ''-r'', r, principal_of u s] = kinit_args s u l r (k \<noteq> None) d"
    using 2 assms by (auto simp: kinit_args_def ret_def andthen_def split: option.splits sum.splits prod.splits)
  have ops: "sp.keeps (case p of None \<Rightarrow> ret None | Some a \<Rightarrow> andthen (bytes_of a) (\<lambda>b. ret (Some b)))"
    by (intro keeps_intro)
  show ?case
    unfolding args
  proof (rule starts_late [OF ops])
    fix i w2
    assume "(case p of None \<Rightarrow> ret None | Some a \<Rightarrow> andthen (bytes_of a) (\<lambda>b. ret (Some b))) w1 = (Inr i, w2)"
    then have "i = map_option (\<lambda>a. raw (heap w ! a)) p"
      using option_bytes_run [of p w1 i w2] w1 by (cases p) auto
    then show "starts (kinit_call env s (kinit_args s u l r (k \<noteq> None) d) (map_option (\<lambda>a. raw (heap w ! a)) p))
        (mint_from_kinit env lib s u (k \<noteq> None) (join_path d ''ccache'')
           (kinit_args s u l r (k \<noteq> None) d) i) w2"
      by (simp add: starts_kinit)
  qed
qed

lemma calls_in_finally:
  assumes c: "\<And>d w1. fresh_dir env = Inr d \<Longrightarrow> heap w1 = heap w \<Longrightarrow> starts (cmd d) (body d) w1"
    and k: "sp.keeps k"
  shows "(case fresh_dir env of
      Inl e \<Rightarrow> spawned (snd (finally_do (with_tmpdir env body) k w)) = spawned w
    | Inr d \<Rightarrow> starts (cmd d) (finally_do (with_tmpdir env body) k) w)"
proof (cases "fresh_dir env")
  case (Inl e)
  then show ?thesis
    using starts_with_tmpdir [of env w cmd body] sp_run [OF k]
    by (cases "k w"; cases "fst (k w)"; use sp_run [OF k, of w] in
      \<open>auto simp: finally_do_def with_tmpdir_def mkdtemp_def andthen_def split: sum.splits prod.splits\<close>)
next
  case (Inr d)
  have "starts (cmd d) (with_tmpdir env body) w"
    using starts_with_tmpdir [of env w cmd body] c Inr by simp
  with Inr show ?thesis by (simp add: starts_finally [OF _ k])
qed

lemma mint_ticket_starts:
  "(case fresh_dir env of
      Inl e \<Rightarrow> spawned (snd (mint_ticket env lib s u (Some a) l r None w)) = spawned w
    | Inr d \<Rightarrow> starts (kinit_call env s
                [kinit_bin s, lit ''-c'', lit ''FILE:'' @ d @ lit ''/ccache'', lit ''-l'', l, lit ''-r'', r,
                 u @ lit ''@'' @ default_realm s] (Some (raw (heap w ! a) @ [10])))
               (mint_ticket env lib s u (Some a) l r None) w)
   \<and> (case fresh_dir env of
      Inl e \<Rightarrow> spawned (snd (mint_ticket env lib s u None l r (Some a) w)) = spawned w
    | Inr d \<Rightarrow> starts (kinit_call env s
                [kinit_bin s, lit ''-c'', lit ''FILE:'' @ d @ lit ''/ccache'', lit ''-k'', lit ''-t'',
                 d @ lit ''/keytab'', lit ''-l'', l, lit ''-r'', r, u @ lit ''@'' @ default_realm s] None)
               (mint_ticket env lib s u None l r (Some a)) w)"
proof (cases "fault env (Mkdir (ccache_tmp_root s))")
  case (Some msg)
  then show ?thesis
    by (simp add: mint_ticket_def mkdir_def with_fault_def throw_def andthen_def starts_def split: sum.split)
next
  case None
  then obtain w1 where w1: "mkdir env (ccache_tmp_root s) w = (Inr (), w1)" "heap w1 = heap w"
    "spawned w1 = spawned w" using mkdir_run by blast
  let ?n = "length (heap w)"
  let ?w2 = "w1\<lparr>heap := heap w @ [ByteArray (raw (heap w ! a) @ [10])]\<rparr>"
  let ?c1 = "\<lambda>d. kinit_call env s (kinit_args s u l r False d) (Some (raw (heap w ! a) @ [10]))"
  let ?c2 = "\<lambda>d. kinit_call env s (kinit_args s u l r True d) None"
  have b1: "starts (?c1 d) (mint_in_tmpdir env lib s u l r (Some ?n) None d) w3"
    if "heap w3 = heap ?w2" for d w3
    using starts_mint_in_tmpdir [of None "Some ?n" env s u l r d w3 lib] that by simp
  have b2: "starts (?c2 d) (mint_in_tmpdir env lib s u l r None (Some a) d) w3" for d w3
    using starts_mint_in_tmpdir [of "Some a" None env s u l r d w3 lib] by simp
  have k1: "sp.keeps (andthen (zero_bytearray ?n) (\<lambda>_. zero_bytearray a))" by (intro keeps_intro)
  have s1: "snd (mint_ticket env lib s u (Some a) l r None w) =
      snd (finally_do (with_tmpdir env (mint_in_tmpdir env lib s u l r (Some ?n) None))
        (andthen (zero_bytearray ?n) (\<lambda>_. zero_bytearray a)) ?w2)"
    using w1 by (simp add: mint_run)
  have s2: "snd (mint_ticket env lib s u None l r (Some a) w) =
      snd (finally_do (with_tmpdir env (mint_in_tmpdir env lib s u l r None (Some a))) (zero_bytearray a) w1)"
    using w1 by (simp add: mint_run)
  have a1: "kinit_args s u l r False d = [kinit_bin s, lit ''-c'', lit ''FILE:'' @ d @ lit ''/ccache'',
      lit ''-l'', l, lit ''-r'', r, u @ lit ''@'' @ default_realm s]" for d
    by (simp add: kinit_args_def join_path_def principal_of_def lit_append [symmetric])
  have a2: "kinit_args s u l r True d = [kinit_bin s, lit ''-c'', lit ''FILE:'' @ d @ lit ''/ccache'',
      lit ''-k'', lit ''-t'', d @ lit ''/keytab'', lit ''-l'', l, lit ''-r'', r, u @ lit ''@'' @ default_realm s]" for d
    by (simp add: kinit_args_def join_path_def principal_of_def lit_append [symmetric])
  have f1: "spawned ?w2 = spawned w" using w1 by simp
  note p1 = calls_in_finally [of env ?w2 ?c1, OF b1 k1]
  note p2 = calls_in_finally [of env w1 ?c2, OF b2 zeroing_keeps(1) [of a]]
  show ?thesis
  proof (cases "fresh_dir env")
    case (Inl e)
    show ?thesis
      using p1 p2 unfolding s1 s2 Inl f1 w1(3) by simp
  next
    case (Inr d)
    show ?thesis
      using p1 p2 unfolding starts_def s1 s2 Inr f1 w1(3) a1 a2 by simp
  qed
qed

lemma starts_renew_in_tmpdir:
  "starts (kinit_call env s [kinit_bin s, lit ''-R'', lit ''-c'', lit ''FILE:'' @ join_path d ''ccache''] None)
     (renew_in_tmpdir env lib s c d) w"
  unfolding renew_in_tmpdir_def kinit_call_def Let_def
  by (rule starts_late, intro keeps_intro)+ (intro starts_early starts_run_subprocess keeps_intro)

lemma starts_keytab_in_tmpdir:
  "starts \<lparr>argv = [executable env, cern_get_keytab_bin s, lit ''-u'', lit ''-v'', lit ''-l'', u,
       lit ''--keytab'', join_path d ''keytab''], stdin = Some (raw (heap w ! a)),
       timeout = cern_get_keytab_timeout_seconds s, child_environ = krb5_environ env s\<rparr>
     (keytab_in_tmpdir env s u a d) w"
  unfolding keytab_in_tmpdir_def Let_def
proof (rule starts_late, goal_cases)
  case 1
  show ?case by (intro keeps_intro)
next
  case (2 i w1)
  then have "i = raw (heap w ! a)" by (simp add: bytes_of_run)
  then show ?case by simp (intro starts_early starts_run_subprocess keeps_intro)
qed

lemma renew_and_keytab_start:
  "(case fresh_dir env of
      Inl e \<Rightarrow> spawned (snd (renew_ticket env lib s c w)) = spawned w
    | Inr d \<Rightarrow> starts (kinit_call env s
                [kinit_bin s, lit ''-R'', lit ''-c'', lit ''FILE:'' @ join_path d ''ccache''] None)
               (renew_ticket env lib s c) w)
   \<and> (case fresh_dir env of
      Inl e \<Rightarrow> spawned (snd (mint_keytab env s u a w)) = spawned w
    | Inr d \<Rightarrow> starts \<lparr>argv = [executable env, cern_get_keytab_bin s, lit ''-u'', lit ''-v'',
                  lit ''-l'', u, lit ''--keytab'', join_path d ''keytab''],
                stdin = Some (raw (heap w ! a) @ [10]), timeout = cern_get_keytab_timeout_seconds s,
                child_environ = krb5_environ env s\<rparr> (mint_keytab env s u a) w)"
proof (cases "fault env (Mkdir (ccache_tmp_root s))")
  case (Some msg)
  then show ?thesis
    by (simp add: renew_ticket_def mint_keytab_def mkdir_def with_fault_def throw_def andthen_def
        starts_def split: sum.split)
next
  case None
  then obtain w1 where w1: "mkdir env (ccache_tmp_root s) w = (Inr (), w1)" "heap w1 = heap w"
    "spawned w1 = spawned w" using mkdir_run by blast
  let ?n = "length (heap w)"
  let ?w2 = "w1\<lparr>heap := heap w @ [ByteArray (raw (heap w ! a) @ [10])]\<rparr>"
  let ?c1 = "\<lambda>d. kinit_call env s [kinit_bin s, lit ''-R'', lit ''-c'', lit ''FILE:'' @ join_path d ''ccache''] None"
  let ?c2 = "\<lambda>d. \<lparr>argv = [executable env, cern_get_keytab_bin s, lit ''-u'', lit ''-v'', lit ''-l'', u,
       lit ''--keytab'', join_path d ''keytab''], stdin = Some (raw (heap w ! a) @ [10]),
       timeout = cern_get_keytab_timeout_seconds s, child_environ = krb5_environ env s\<rparr>"
  have b1: "starts (?c1 d) (renew_in_tmpdir env lib s c d) w3" for d w3 by (rule starts_renew_in_tmpdir)
  have b2: "starts (?c2 d) (keytab_in_tmpdir env s u ?n d) w3" if "heap w3 = heap ?w2" for d w3
    using starts_keytab_in_tmpdir [of env s u d w3 ?n] that by simp
  have k2: "sp.keeps (andthen (zero_bytearray ?n) (\<lambda>_. zero_bytearray a))" by (intro keeps_intro)
  have s1: "snd (renew_ticket env lib s c w) = snd (with_tmpdir env (renew_in_tmpdir env lib s c) w1)"
    using w1 by (simp add: renew_ticket_def andthen_Inr case_prod_ret andthen_ret)
  have s2: "snd (mint_keytab env s u a w) = snd (finally_do (with_tmpdir env (keytab_in_tmpdir env s u ?n))
      (andthen (zero_bytearray ?n) (\<lambda>_. zero_bytearray a)) ?w2)"
    using w1 by (simp add: mint_keytab_def andthen_Inr stdin_buffer_run)
  have f1: "spawned ?w2 = spawned w" using w1 by simp
  note p1 = starts_with_tmpdir [of env w1 ?c1, OF b1]
  note p2 = calls_in_finally [of env ?w2 ?c2, OF b2 k2]
  show ?thesis
  proof (cases "fresh_dir env")
    case (Inl e)
    show ?thesis using p1 p2 unfolding s1 s2 Inl f1 w1(3) by simp
  next
    case (Inr d)
    show ?thesis using p1 p2 unfolding starts_def s1 s2 Inr f1 w1(3) by simp
  qed
qed

text \<open>
  C21: the command lines. \<open>mint_ticket\<close> starts at most one process, and it is kinit with exactly the
  documented arguments: the ccache path, \<open>-k -t\<close> and the staged keytab in keytab mode only, the two
  lifetimes and \<open>username@default_realm\<close>. \<open>renew_ticket\<close> starts at most \<open>kinit -R\<close> on the staged
  cache, with no input. \<open>mint_keytab\<close> starts at most cern-get-keytab under the service's own
  interpreter. A password is on stdin, followed by a newline, and never among the arguments.
\<close>

theorem minting_command_lines:
  "((case fresh_dir env of
      Inl e \<Rightarrow> spawned (snd (mint_ticket env lib s u (Some a) l r None w)) = spawned w
    | Inr d \<Rightarrow> starts (kinit_call env s
                [kinit_bin s, lit ''-c'', lit ''FILE:'' @ d @ lit ''/ccache'', lit ''-l'', l, lit ''-r'', r,
                 u @ lit ''@'' @ default_realm s] (Some (raw (heap w ! a) @ [10])))
               (mint_ticket env lib s u (Some a) l r None) w)
   \<and> (case fresh_dir env of
      Inl e \<Rightarrow> spawned (snd (mint_ticket env lib s u None l r (Some a) w)) = spawned w
    | Inr d \<Rightarrow> starts (kinit_call env s
                [kinit_bin s, lit ''-c'', lit ''FILE:'' @ d @ lit ''/ccache'', lit ''-k'', lit ''-t'',
                 d @ lit ''/keytab'', lit ''-l'', l, lit ''-r'', r, u @ lit ''@'' @ default_realm s] None)
               (mint_ticket env lib s u None l r (Some a)) w))
   \<and> (case fresh_dir env of
      Inl e \<Rightarrow> spawned (snd (renew_ticket env lib s c w)) = spawned w
    | Inr d \<Rightarrow> starts (kinit_call env s
                [kinit_bin s, lit ''-R'', lit ''-c'', lit ''FILE:'' @ join_path d ''ccache''] None)
               (renew_ticket env lib s c) w)
   \<and> (case fresh_dir env of
      Inl e \<Rightarrow> spawned (snd (mint_keytab env s u a w)) = spawned w
    | Inr d \<Rightarrow> starts \<lparr>argv = [executable env, cern_get_keytab_bin s, lit ''-u'', lit ''-v'',
                  lit ''-l'', u, lit ''--keytab'', join_path d ''keytab''],
                stdin = Some (raw (heap w ! a) @ [10]), timeout = cern_get_keytab_timeout_seconds s,
                child_environ = krb5_environ env s\<rparr> (mint_keytab env s u a) w)"
  by (intro conjI [OF mint_ticket_starts renew_and_keytab_start])

section \<open>The staging directory\<close>

lemma with_tmpdir_cleans:
  assumes "fresh_dir env = Inr d" and "fault env (Rmtree d) = None" and "under d p"
  shows "files (snd (with_tmpdir env body w)) p = None \<and> dirs (snd (with_tmpdir env body w)) p = None"
proof -
  let ?w1 = "w\<lparr>dirs := (dirs w)(d \<mapsto> 448)\<rparr>"
  obtain r w2 where "body d ?w1 = (r, w2)" by (cases "body d ?w1")
  with assms show ?thesis
    by (simp add: with_tmpdir_def mkdtemp_def andthen_def finally_do_def rmtree_def with_fault_def)
qed

lemma finally_only_heap:
  assumes "\<And>w. \<exists>h. length h = length (heap w) \<and> c w = (Inr (), w\<lparr>heap := h\<rparr>)"
  shows "\<exists>h. finally_do m c w = (fst (m w), (snd (m w))\<lparr>heap := h\<rparr>)
    \<and> length h = length (heap (snd (m w)))"
proof -
  obtain h where "length h = length (heap (snd (m w)))" "c (snd (m w)) = (Inr (), (snd (m w))\<lparr>heap := h\<rparr>)"
    using assms by blast
  then show ?thesis by (intro exI [of _ h], cases "m w") (simp add: finally_do_def)
qed



end
