(* ===== verification/Minting_Outcome.thy ===== *)
theory Minting_Outcome
  imports Minting_Calls
begin

text \<open>
  What the minting operations return, as pure functions of what the child process answers and of
  the files it leaves, and the refinement theorems that connect them to the operations.
\<close>

section \<open>The outcome of a kinit run\<close>

definition readable :: "os_env \<Rightarrow> (pystr \<rightharpoonup> file_node) \<Rightarrow> pystr \<Rightarrow> bytes option" where
  "readable env fs p = (case fault env (ReadBytes p) of Some _ \<Rightarrow> None | None \<Rightarrow> map_option content (fs p))"

definition kinit_error :: "bool \<Rightarrow> int \<Rightarrow> bytes \<Rightarrow> exn" where
  "kinit_error with_keytab rc err =
     (case (if with_keytab then classify_keytab_stderr else classify_password_stderr) (stderr_text err) of
        Some e \<Rightarrow> e | None \<Rightarrow> MintingError (lit ''kinit exited '' @ str_int rc))"

fun kinit_outcome ::
    "os_env \<Rightarrow> krb5_lib \<Rightarrow> settings \<Rightarrow> bool \<Rightarrow> pystr \<Rightarrow> child_result \<times> (pystr \<rightharpoonup> file_node)
       \<Rightarrow> exn + minted_ticket" where
  "kinit_outcome env lib s kt cp (SpawnFailed m, fs) = Inl (MintingError (lit ''failed to invoke '' @ kinit_bin s))"
| "kinit_outcome env lib s kt cp (TimedOut, fs) = Inl (MintingError (kinit_bin s @ lit '' timed out''))"
| "kinit_outcome env lib s kt cp (Exited rc out err, fs) =
     (if rc \<noteq> 0 then Inl (kinit_error kt rc err)
      else case readable env fs cp of
             None \<Rightarrow> Inl (MintingError (lit ''kinit produced no ccache file''))
           | Some bs \<Rightarrow>
               if bs = [] then Inl (MintingError (lit ''kinit produced an empty ccache file''))
               else map_sum id (minted_of bs) (read_ccache lib (Some bs)))"

lemmas op_simps = andthen_def catching_def throw_def ret_def log_op_def subprocess_failure_def
  no_output_def require_nonempty_def parse_ccache_def read_bytes_def with_fault_def

lemma fst_log_throw: "fst (andthen (log_op l n d) (\<lambda>_. throw e) w) = Inl e"
  by (simp add: op_simps)

lemma fst_kinit_failed: "fst (kinit_failed u kt rc err w) = Inl (kinit_error kt rc err)"
  by (simp add: kinit_failed_def kinit_error_def Let_def op_simps split: option.split)

lemma run_subprocess_run:
  assumes "argv_error args = None"
  shows "run_subprocess env args i t b ctx ce w =
    (let cmd = \<lparr>argv = args, stdin = i, timeout = t, child_environ = ce\<rparr> in
     case child env cmd (files w) of
       (SpawnFailed m, fs) \<Rightarrow> (Inl (MintingError (lit ''failed to invoke '' @ b)),
          snd (log_op LOG_ERROR ''subprocess_spawn_failed''
                 [(lit ''binary'', JStr b), (lit ''error'', JStr m)] w))
     | (TimedOut, fs) \<Rightarrow> (Inl (MintingError (b @ lit '' timed out'')),
          snd (log_op LOG_ERROR ''subprocess_timed_out''
                 [(lit ''binary'', JStr b), (lit ''context'', JStr ctx), (lit ''timeout'', JNum (of_int t))]
                 (w\<lparr>files := fs, spawned := spawned w @ [cmd]\<rparr>)))
     | (Exited rc out err, fs) \<Rightarrow>
          (Inr (rc, out, err), w\<lparr>files := fs, spawned := spawned w @ [cmd]\<rparr>))"
  using assms
  by (simp add: run_subprocess_def run_child_def op_simps Let_def split: prod.split child_result.split)

lemma read_or_fail_run:
  "catching (read_bytes env p) (no_output n d m) w =
     (case readable env (files w) p of
        None \<Rightarrow> (Inl (MintingError m), snd (log_op LOG_ERROR n d w))
      | Some bs \<Rightarrow> (Inr bs, w))"
  by (simp add: readable_def op_simps split: option.split)

lemma mint_from_kinit_outcome:
  assumes "argv_error args = None"
  shows "map_sum id (\<lambda>(bs, i). minted_of bs i) (fst (mint_from_kinit env lib s u kt cp args i w)) =
    kinit_outcome env lib s kt cp (child env (kinit_call env s args i) (files w))"
proof (cases "child env (kinit_call env s args i) (files w)")
  case (Pair r fs)
  show ?thesis
  proof (cases r)
    case (Exited rc out err)
    let ?w = "w\<lparr>files := fs, spawned := spawned w @ [kinit_call env s args i]\<rparr>"
    have run: "run_subprocess env args i (kinit_timeout_seconds s) (kinit_bin s) u (krb5_environ env s) w
        = (Inr (rc, out, err), ?w)"
      using Pair Exited by (simp add: run_subprocess_run assms kinit_call_def)
    show ?thesis
    proof (cases "rc = 0")
      case False
      then show ?thesis
        by (simp add: mint_from_kinit_def Let_def andthen_Inr run Pair Exited fst_kinit_failed)
    next
      case True
      show ?thesis
      proof (cases "readable env fs cp")
        case None
        with True show ?thesis
          by (simp add: mint_from_kinit_def Let_def andthen_Inr run Pair Exited read_or_fail_run andthen_Inl)
      next
        case (Some bs)
        then obtain f where "fs cp = Some f" "content f = bs"
          by (auto simp: readable_def split: option.splits)
        with Some True show ?thesis
          by (cases "bs = []"; cases "read_ccache lib (Some bs)")
            (simp_all add: mint_from_kinit_def Let_def andthen_Inr run Pair Exited read_or_fail_run, simp_all add: op_simps)
      qed
    qed
  qed (use Pair assms in \<open>simp_all add: mint_from_kinit_def Let_def andthen_Inl run_subprocess_run kinit_call_def\<close>)
qed


lemma mint_in_tmpdir_password:
  "mint_in_tmpdir env lib s u l r (Some p) None d w =
     mint_from_kinit env lib s u False (join_path d ''ccache'') (kinit_args s u l r False d)
       (Some (raw (heap w ! p))) (w\<lparr>heap := heap w @ [Bytes (raw (heap w ! p))]\<rparr>)"
  by (simp add: mint_in_tmpdir_def Let_def andthen_Inr andthen_ret bytes_of_run kinit_args_def)

lemma file_node_update: "f\<lparr>content := c, mode := m\<rparr> = \<lparr>content = c, mode = m\<rparr>" for f :: file_node
  by (cases f) simp

lemma mint_in_tmpdir_keytab:
  assumes "fault env (WriteBytes (join_path d ''keytab'')) = None"
    and "fault env (Chmod (join_path d ''keytab'')) = None"
  shows "mint_in_tmpdir env lib s u l r None (Some k) d w =
     mint_from_kinit env lib s u True (join_path d ''ccache'') (kinit_args s u l r True d) None
       (w\<lparr>heap := heap w @ [Bytes (raw (heap w ! k))],
          files := (files w)(join_path d ''keytab'' \<mapsto> \<lparr>content = raw (heap w ! k), mode = 384\<rparr>)\<rparr>)"
  using assms
  by (simp add: mint_in_tmpdir_def Let_def andthen_Inr bytes_of_run write_bytes_def chmod_def
      with_fault_def kinit_args_def ret_def file_node_update split: option.split)

lemma with_tmpdir_result:
  assumes "fresh_dir env = Inr d" and "fault env (Rmtree d) = None"
  shows "fst (with_tmpdir env body w) = fst (body d (w\<lparr>dirs := (dirs w)(d \<mapsto> 448)\<rparr>))"
  using assms by (cases "body d (w\<lparr>dirs := (dirs w)(d \<mapsto> 448)\<rparr>)")
    (simp add: with_tmpdir_def mkdtemp_def andthen_def finally_do_def rmtree_def with_fault_def)

lemma finally_result:
  assumes "\<And>w. \<exists>h. length h = length (heap w) \<and> c w = (Inr (), w\<lparr>heap := h\<rparr>)"
  shows "fst (finally_do m c w) = fst (m w)"
  using finally_only_heap [OF assms, of m w] by auto

lemma argv_ok_password: "argv_error (kinit_args s u l r True d) = None \<Longrightarrow> argv_error (kinit_args s u l r False d) = None"
  by (auto simp: kinit_args_def argv_error_def split: if_splits)

text \<open>
  C6: with a staging directory in place, what \<open>mint_ticket\<close> returns or raises is a function of
  kinit's answer and of the cache it leaves: a typed error from the classifier, \<open>MintingError\<close> for
  every other failure, or the cache's own principal, realm and times. In keytab mode kinit runs with
  the exact keytab bytes in a file of mode 0600.
\<close>

theorem mint_ticket_outcome:
  assumes "fault env (Mkdir (ccache_tmp_root s)) = None" and "fresh_dir env = Inr d"
    and "fault env (Rmtree d) = None"
    and "fault env (WriteBytes (join_path d ''keytab'')) = None"
    and "fault env (Chmod (join_path d ''keytab'')) = None"
    and "argv_error (kinit_args s u l r True d) = None"
  shows "fst (mint_ticket env lib s u (Some a) l r None w) =
      kinit_outcome env lib s False (join_path d ''ccache'')
        (child env (kinit_call env s (kinit_args s u l r False d) (Some (raw (heap w ! a) @ [10]))) (files w))
    \<and> fst (mint_ticket env lib s u None l r (Some a) w) =
      kinit_outcome env lib s True (join_path d ''ccache'')
        (child env (kinit_call env s (kinit_args s u l r True d) None)
           ((files w)(join_path d ''keytab'' \<mapsto> \<lparr>content = raw (heap w ! a), mode = 384\<rparr>)))"
proof -
  obtain w1 where w1: "mkdir env (ccache_tmp_root s) w = (Inr (), w1)" "heap w1 = heap w" "files w1 = files w"
    using mkdir_run [OF assms(1)] by blast
  note ok = assms(6) argv_ok_password [OF assms(6)]
  note run = mint_from_kinit_outcome [OF ok(1)] mint_from_kinit_outcome [OF ok(2)]
  note step = mint_ticket_def andthen_Inr stdin_buffer_run case_prod_ret andthen_ret finally_result
    zeroing_any with_tmpdir_result [OF assms(2,3)]
  have 1: "fst (mint_ticket env lib s u (Some a) l r None w) = kinit_outcome env lib s False (join_path d ''ccache'')
      (child env (kinit_call env s (kinit_args s u l r False d) (Some (raw (heap w ! a) @ [10]))) (files w))"
    using w1 by (simp add: step mint_in_tmpdir_password run)
  have 2: "fst (mint_ticket env lib s u None l r (Some a) w) = kinit_outcome env lib s True (join_path d ''ccache'')
      (child env (kinit_call env s (kinit_args s u l r True d) None)
         ((files w)(join_path d ''keytab'' \<mapsto> \<lparr>content = raw (heap w ! a), mode = 384\<rparr>)))"
    using w1 by (simp add: step mint_in_tmpdir_keytab [OF assms(4,5)] run)
  show ?thesis using 1 2 by blast
qed

theorem mint_ticket_outcome_witness:
  "\<exists>env lib. fst (mint_ticket env lib default_settings (lit ''u'') (Some 0) (lit ''1h'') (lit ''1d'') None
      (world_with [ByteArray [112, 119]])) = Inl (BadPasswordError (lit ''bad password''))"
proof -
  let ?err = "map of_char ''kinit: Password incorrect'' :: bytes"
  let ?env = "scripted_env (\<lambda>c fs. (Exited 1 [] ?err, fs))"
  have args: "argv_error (kinit_args default_settings (lit ''u'') (lit ''1h'') (lit ''1d'') True
      (lit ''/tmp/krb5cc/t'')) = None"
    by code_simp
  have cls: "classify_password_stderr (stderr_text ?err) = Some (BadPasswordError (lit ''bad password''))"
    by code_simp
  show ?thesis
    using mint_ticket_outcome [of ?env default_settings "lit ''/tmp/krb5cc/t''" "lit ''u''" "lit ''1h''" "lit ''1d''"
        _ 0 "world_with [ByteArray [112, 119]]"] args cls
    by (intro exI [of _ ?env] exI) (simp add: scripted_env_def kinit_error_def)
qed

section \<open>Renewal\<close>

definition renew_args :: "settings \<Rightarrow> pystr \<Rightarrow> pystr list" where
  "renew_args s d = [kinit_bin s, lit ''-R'', lit ''-c'', lit ''FILE:'' @ join_path d ''ccache'']"

definition renew_error :: "int \<Rightarrow> bytes \<Rightarrow> exn" where
  "renew_error rc err =
     (case classify_renew_stderr (stderr_text err) of
        Some e \<Rightarrow> e | None \<Rightarrow> MintingError (lit ''kinit -R exited '' @ str_int rc))"

text \<open>Unlike \<open>mint_ticket\<close>, a cache that cannot be read back raises the \<open>OSError\<close> itself.\<close>

fun renew_outcome ::
    "os_env \<Rightarrow> krb5_lib \<Rightarrow> settings \<Rightarrow> pystr \<Rightarrow> child_result \<times> (pystr \<rightharpoonup> file_node) \<Rightarrow> exn + minted_ticket" where
  "renew_outcome env lib s cp (SpawnFailed m, fs) = Inl (MintingError (lit ''failed to invoke '' @ kinit_bin s))"
| "renew_outcome env lib s cp (TimedOut, fs) = Inl (MintingError (kinit_bin s @ lit '' timed out''))"
| "renew_outcome env lib s cp (Exited rc out err, fs) =
     (if rc \<noteq> 0 then Inl (renew_error rc err)
      else case (case fault env (ReadBytes cp) of
                   Some m \<Rightarrow> Inl (OSErr m)
                 | None \<Rightarrow> (case fs cp of None \<Rightarrow> Inl (OSErr (lit ''No such file or directory''))
                            | Some f \<Rightarrow> Inr (content f))) of
             Inl e \<Rightarrow> Inl e
           | Inr bs \<Rightarrow>
               if bs = [] then Inl (MintingError (lit ''kinit -R produced an empty ccache file''))
               else map_sum id (minted_of bs) (read_ccache lib (Some bs)))"

lemma fst_renew_failed: "fst (renew_failed rc err w) = Inl (renew_error rc err)"
  by (simp add: renew_failed_def renew_error_def Let_def op_simps split: option.split)

lemma renew_staged:
  assumes "fault env (WriteBytes (join_path d ''ccache'')) = None"
    and "fault env (Chmod (join_path d ''ccache'')) = None"
  shows "renew_in_tmpdir env lib s c d w =
    (let cp = join_path d ''ccache'';
         w1 = w\<lparr>files := (files w)(cp \<mapsto> \<lparr>content = c, mode = 384\<rparr>)\<rparr>
     in case read_ccache lib (Some c) of
          Inl e \<Rightarrow> (Inl e, w1)
        | Inr _ \<Rightarrow>
            andthen (run_subprocess env (renew_args s d) None (kinit_timeout_seconds s) (kinit_bin s)
                       (lit ''renew'') (krb5_environ env s))
              (\<lambda>(returncode, out, err).
               if returncode \<noteq> 0 then renew_failed returncode err
               else
                 andthen (read_bytes env cp) (\<lambda>renewed.
                 andthen (require_nonempty ''kinit_renew_empty_output'' []
                            (lit ''kinit -R produced an empty ccache file'') renewed) (\<lambda>_.
                 andthen (parse_ccache lib cp) (\<lambda>info. ret (renewed, info)))))
              w1)"
proof -
  let ?cp = "join_path d ''ccache''"
  let ?w1 = "w\<lparr>files := (files w)(?cp \<mapsto> \<lparr>content = c, mode = 384\<rparr>)\<rparr>"
  have stage: "andthen (write_bytes env ?cp c) (\<lambda>_. andthen (chmod env ?cp 384) k) w = k () ?w1"
    for k :: "unit \<Rightarrow> 'x op"
    using assms by (simp add: andthen_def write_bytes_def chmod_def with_fault_def file_node_update
        split: option.split)
  show ?thesis
    unfolding renew_in_tmpdir_def Let_def stage renew_args_def
    by (simp add: andthen_def [of "parse_ccache lib ?cp"] parse_ccache_def split: sum.split)
qed

lemma renew_in_tmpdir_outcome:
  assumes "fault env (WriteBytes (join_path d ''ccache'')) = None"
    and "fault env (Chmod (join_path d ''ccache'')) = None"
    and "argv_error (renew_args s d) = None"
  shows "map_sum id (\<lambda>(bs, i). minted_of bs i) (fst (renew_in_tmpdir env lib s c d w)) =
    (case read_ccache lib (Some c) of
       Inl e \<Rightarrow> Inl e
     | Inr _ \<Rightarrow> renew_outcome env lib s (join_path d ''ccache'')
         (child env (kinit_call env s (renew_args s d) None)
            ((files w)(join_path d ''ccache'' \<mapsto> \<lparr>content = c, mode = 384\<rparr>))))"
proof (cases "read_ccache lib (Some c)")
  case (Inl e)
  then show ?thesis by (simp add: renew_staged [OF assms(1,2)] Let_def)
next
  case (Inr i0)
  let ?cp = "join_path d ''ccache''"
  let ?w1 = "w\<lparr>files := (files w)(?cp \<mapsto> \<lparr>content = c, mode = 384\<rparr>)\<rparr>"
  note staged = renew_staged [OF assms(1,2)] Inr Let_def
  show ?thesis
  proof (cases "child env (kinit_call env s (renew_args s d) None) (files ?w1)")
    case (Pair r fs)
    show ?thesis
    proof (cases r)
      case (Exited rc out err)
      let ?w = "?w1\<lparr>files := fs, spawned := spawned w @ [kinit_call env s (renew_args s d) None]\<rparr>"
      have run: "run_subprocess env (renew_args s d) None (kinit_timeout_seconds s) (kinit_bin s)
          (lit ''renew'') (krb5_environ env s) ?w1 = (Inr (rc, out, err), ?w)"
        using Pair Exited by (simp add: run_subprocess_run assms kinit_call_def)
      show ?thesis
      proof (cases "rc = 0")
        case False
        with Pair Exited show ?thesis by (simp add: staged andthen_Inr run fst_renew_failed)
      next
        case True
        show ?thesis
        proof (cases "fst (read_bytes env ?cp ?w)")
          case (Inl e)
          with True Pair Exited show ?thesis
            by (simp add: staged andthen_Inr run) (auto simp: op_simps split: option.splits)
        next
          case (Inr bs)
          with True Pair Exited show ?thesis
            by (cases "bs = []"; cases "read_ccache lib (Some bs)")
              (simp_all add: staged andthen_Inr run, auto simp: op_simps split: option.splits)
        qed
      qed
    qed (use Pair assms(3) in \<open>simp_all add: staged andthen_Inl run_subprocess_run kinit_call_def\<close>)
  qed
qed

lemma renew_ticket_run:
  assumes "fault env (Mkdir (ccache_tmp_root s)) = None" and "fresh_dir env = Inr d"
    and "fault env (Rmtree d) = None"
  shows "\<exists>w1. files w1 = files w \<and> fst (renew_ticket env lib s c w) =
    map_sum id (\<lambda>(bs, i). minted_of bs i) (fst (renew_in_tmpdir env lib s c d w1))"
proof -
  obtain w1 where "mkdir env (ccache_tmp_root s) w = (Inr (), w1)" "files w1 = files w"
    using mkdir_run [OF assms(1)] by blast
  then show ?thesis
    by (intro exI [of _ "w1\<lparr>dirs := (dirs w1)(d \<mapsto> 448)\<rparr>"])
      (simp add: renew_ticket_def andthen_Inr case_prod_ret andthen_ret with_tmpdir_result [OF assms(2,3)])
qed

text \<open>
  C7: \<open>renew_ticket\<close> parses the caller's cache first: an unreadable one is answered with
  \<open>read_ccache\<close>'s exception; otherwise the result is a function of what \<open>kinit -R\<close> answers when it
  is given exactly those bytes in a file of mode 0600.
\<close>

theorem renew_ticket_outcome:
  assumes "fault env (Mkdir (ccache_tmp_root s)) = None" and "fresh_dir env = Inr d"
    and "fault env (Rmtree d) = None"
    and "fault env (WriteBytes (join_path d ''ccache'')) = None"
    and "fault env (Chmod (join_path d ''ccache'')) = None"
    and "argv_error (renew_args s d) = None"
  shows "fst (renew_ticket env lib s c w) =
    (case read_ccache lib (Some c) of
       Inl e \<Rightarrow> Inl e
     | Inr _ \<Rightarrow> renew_outcome env lib s (join_path d ''ccache'')
         (child env (kinit_call env s (renew_args s d) None)
            ((files w)(join_path d ''ccache'' \<mapsto> \<lparr>content = c, mode = 384\<rparr>))))"
proof -
  obtain w1 where f: "files w1 = files w" and r: "fst (renew_ticket env lib s c w) =
      map_sum id (\<lambda>(bs, i). minted_of bs i) (fst (renew_in_tmpdir env lib s c d w1))"
    using renew_ticket_run [OF assms(1,2,3)] by blast
  show ?thesis unfolding r renew_in_tmpdir_outcome [OF assms(4,5,6)] f ..
qed

definition failing_lib :: "exn \<Rightarrow> krb5_lib" where
  "failing_lib e = \<lparr>init_context = Some e, cc_get_principal = (\<lambda>_. Inl e), cc_credentials = (\<lambda>_. [])\<rparr>"

theorem renew_ticket_outcome_witness:
  "\<exists>env. fst (renew_ticket env (failing_lib (Krb5Error (lit ''Bad version number''))) default_settings [1, 2, 3]
      (world_with [])) = Inl (CcacheParseError (lit ''not a readable ccache: Bad version number''))"
proof -
  let ?env = "scripted_env (\<lambda>c fs. (TimedOut, fs))"
  have args: "argv_error (renew_args default_settings (lit ''/tmp/krb5cc/t'')) = None"
    by code_simp
  show ?thesis
    using renew_ticket_outcome [of ?env default_settings "lit ''/tmp/krb5cc/t''"
        "failing_lib (Krb5Error (lit ''Bad version number''))" "[1, 2, 3]" "world_with []"] args
    by (intro exI [of _ ?env]) (simp add: scripted_env_def failing_lib_def read_ccache_def
        read_ccache_try_def lit_append [symmetric])
qed

text \<open>A cache that \<open>read_ccache\<close> refuses never reaches kinit, whatever else fails.\<close>

lemma renew_unreadable_not_spawned:
  assumes "read_ccache lib (Some c) = Inl e"
  shows "spawned (snd (renew_ticket env lib s c w)) = spawned w"
proof -
  have inner: "spawned (snd (renew_in_tmpdir env lib s c d w1)) = spawned w1" for d w1
  proof (cases "fault env (WriteBytes (join_path d ''ccache'')) = None
      \<and> fault env (Chmod (join_path d ''ccache'')) = None")
    case True
    then have "fault env (WriteBytes (join_path d ''ccache'')) = None"
      "fault env (Chmod (join_path d ''ccache'')) = None" by simp_all
    from renew_staged [OF this, of lib s c w1] show ?thesis by (simp add: Let_def assms)
  next
    case False
    then consider m where "fault env (WriteBytes (join_path d ''ccache'')) = Some m"
      | m where "fault env (WriteBytes (join_path d ''ccache'')) = None"
          "fault env (Chmod (join_path d ''ccache'')) = Some m" by auto
    then show ?thesis
      by cases (simp_all add: renew_in_tmpdir_def Let_def andthen_def write_bytes_def chmod_def
          with_fault_def throw_def)
  qed
  have "spawned (snd (with_tmpdir env (renew_in_tmpdir env lib s c) w1)) = spawned w1" for w1
  proof (cases "fresh_dir env")
    case (Inl m)
    then show ?thesis by (simp add: with_tmpdir_def mkdtemp_def andthen_def)
  next
    case (Inr d)
    let ?w = "w1\<lparr>dirs := (dirs w1)(d \<mapsto> 448)\<rparr>"
    obtain r w2 where r: "renew_in_tmpdir env lib s c d ?w = (r, w2)"
      by (cases "renew_in_tmpdir env lib s c d ?w")
    with inner [of d ?w] Inr show ?thesis
      by (simp add: with_tmpdir_def mkdtemp_def andthen_def finally_do_def rmtree_def with_fault_def
          throw_def split: option.split)
  qed
  moreover have "spawned (snd (mkdir env p w)) = spawned w" for p
    by (rule sp_run) (rule sp_prims)
  ultimately show ?thesis
    by (cases "mkdir env (ccache_tmp_root s) w"; cases "fst (mkdir env (ccache_tmp_root s) w)")
      (simp_all add: renew_ticket_def andthen_Inl andthen_Inr case_prod_ret andthen_ret,
        (metis snd_conv)+)
qed

section \<open>Keytabs\<close>

definition keytab_call :: "os_env \<Rightarrow> settings \<Rightarrow> pystr \<Rightarrow> pystr \<Rightarrow> bytes \<Rightarrow> invocation" where
  "keytab_call env s u d input = \<lparr>argv = [executable env, cern_get_keytab_bin s, lit ''-u'', lit ''-v'',
     lit ''-l'', u, lit ''--keytab'', join_path d ''keytab''], stdin = Some input,
     timeout = cern_get_keytab_timeout_seconds s, child_environ = krb5_environ env s\<rparr>"

definition cern_get_keytab_error :: "int \<Rightarrow> bytes \<Rightarrow> exn" where
  "cern_get_keytab_error rc err =
     (if any_marker (BAD_KEY_MARKERS @ NO_CREDENTIALS_MARKERS) (stderr_text err)
      then BadPasswordError (lit ''bad password'')
      else MintingError (lit ''cern-get-keytab exited '' @ str_int rc))"

fun keytab_outcome ::
    "os_env \<Rightarrow> settings \<Rightarrow> pystr \<Rightarrow> child_result \<times> (pystr \<rightharpoonup> file_node) \<Rightarrow> exn + bytes" where
  "keytab_outcome env s kp (SpawnFailed m, fs) =
     Inl (MintingError (lit ''failed to invoke '' @ cern_get_keytab_bin s))"
| "keytab_outcome env s kp (TimedOut, fs) = Inl (MintingError (cern_get_keytab_bin s @ lit '' timed out''))"
| "keytab_outcome env s kp (Exited rc out err, fs) =
     (if rc \<noteq> 0 then Inl (cern_get_keytab_error rc err)
      else case readable env fs kp of
             None \<Rightarrow> Inl (MintingError (lit ''cern-get-keytab produced no keytab file''))
           | Some bs \<Rightarrow>
               if bs = [] then Inl (MintingError (lit ''cern-get-keytab produced an empty keytab file''))
               else Inr bs)"

lemma fst_cern_get_keytab_failed:
  "fst (cern_get_keytab_failed u rc err w) = Inl (cern_get_keytab_error rc err)"
  by (simp add: cern_get_keytab_failed_def cern_get_keytab_error_def
      classify_cern_get_keytab_stderr_def Let_def op_simps)

lemma keytab_in_tmpdir_outcome:
  assumes "argv_error (argv (keytab_call env s u d i)) = None" and "raw (heap w ! p) = i"
  shows "fst (keytab_in_tmpdir env s u p d w) =
    keytab_outcome env s (join_path d ''keytab'') (child env (keytab_call env s u d i) (files w))"
proof (cases "child env (keytab_call env s u d i) (files w)")
  case (Pair r fs)
  let ?w1 = "w\<lparr>heap := heap w @ [Bytes i]\<rparr>"
  let ?run = "run_subprocess env (argv (keytab_call env s u d i)) (Some i) (cern_get_keytab_timeout_seconds s)
      (cern_get_keytab_bin s) u (krb5_environ env s)"
  have call: "\<lparr>argv = argv (keytab_call env s u d i), stdin = Some i,
      timeout = cern_get_keytab_timeout_seconds s, child_environ = krb5_environ env s\<rparr> = keytab_call env s u d i"
    by (simp add: keytab_call_def)
  have args: "[executable env, cern_get_keytab_bin s, lit ''-u'', lit ''-v'', lit ''-l'', u,
      lit ''--keytab'', join_path d ''keytab''] = argv (keytab_call env s u d i)"
    by (simp add: keytab_call_def)
  note unfold = keytab_in_tmpdir_def Let_def args andthen_Inr bytes_of_run assms(2)
  show ?thesis
  proof (cases r)
    case (Exited rc out err)
    let ?w = "?w1\<lparr>files := fs, spawned := spawned w @ [keytab_call env s u d i]\<rparr>"
    have run: "?run ?w1 = (Inr (rc, out, err), ?w)"
      using Pair Exited by (simp add: run_subprocess_run assms(1) call)
    show ?thesis
    proof (cases "rc = 0")
      case False
      with Pair Exited show ?thesis by (simp add: unfold run fst_cern_get_keytab_failed)
    next
      case True
      with Pair Exited show ?thesis
        by (cases "readable env fs (join_path d ''keytab'')")
          (simp_all add: unfold run read_or_fail_run andthen_Inl, simp_all add: op_simps)
    qed
  qed (use Pair assms(1) in \<open>simp_all add: unfold andthen_Inl run_subprocess_run call\<close>)
qed

lemma keytab_run_outcome:
  assumes "fault env (Mkdir (ccache_tmp_root s)) = None" and "fresh_dir env = Inr d"
    and "fault env (Rmtree d) = None"
    and "argv_error (argv (keytab_call env s u d [])) = None"
  shows "fst (mint_keytab env s u a w) = keytab_outcome env s (join_path d ''keytab'')
    (child env (keytab_call env s u d (raw (heap w ! a) @ [10])) (files w))"
proof -
  obtain w1 where w1: "mkdir env (ccache_tmp_root s) w = (Inr (), w1)" "heap w1 = heap w" "files w1 = files w"
    using mkdir_run [OF assms(1)] by blast
  have ok: "argv_error (argv (keytab_call env s u d i)) = None" for i
    using assms(4) by (simp add: keytab_call_def)
  show ?thesis
    using w1 by (simp add: mint_keytab_def andthen_Inr stdin_buffer_run finally_result zeroing_any
        with_tmpdir_result [OF assms(2,3)] keytab_in_tmpdir_outcome [OF ok refl])
qed

text \<open>
  C8: what \<open>mint_keytab\<close> returns is a function of cern-get-keytab's answer to the password on
  stdin: \<open>BadPasswordError\<close> exactly for a failing run whose stderr has a bad-key or no-credentials
  marker, \<open>MintingError\<close> for every other failure, or the non-empty keytab it wrote.
\<close>

theorem mint_keytab_outcome:
  assumes "fault env (Mkdir (ccache_tmp_root s)) = None" and "fresh_dir env = Inr d"
    and "fault env (Rmtree d) = None"
    and "argv_error (argv (keytab_call env s u d [])) = None"
  shows "fst (mint_keytab env s u a w) = keytab_outcome env s (join_path d ''keytab'')
    (child env (keytab_call env s u d (raw (heap w ! a) @ [10])) (files w))"
  by (rule keytab_run_outcome [OF assms])

theorem mint_keytab_outcome_witness:
  "\<exists>env. fst (mint_keytab env default_settings (lit ''u'') 0 (world_with [ByteArray [112, 119]])) = Inr [5, 2]"
proof -
  let ?env = "scripted_env (\<lambda>c fs. (Exited 0 [] [], fs(lit ''/tmp/krb5cc/t/keytab'' \<mapsto> \<lparr>content = [5, 2], mode = 384\<rparr>)))"
  have args: "argv_error (argv (keytab_call ?env default_settings (lit ''u'') (lit ''/tmp/krb5cc/t'') [])) = None"
    by code_simp
  have p: "join_path (lit ''/tmp/krb5cc/t'') ''keytab'' = lit ''/tmp/krb5cc/t/keytab''"
    by (simp add: join_path_def lit_append [symmetric])
  show ?thesis
    using mint_keytab_outcome [of ?env default_settings "lit ''/tmp/krb5cc/t''" "lit ''u''" 0
        "world_with [ByteArray [112, 119]]"] args
    by (intro exI [of _ ?env]) (simp add: scripted_env_def readable_def p)
qed

end
