(* ===== verification/App_Frames.thy ===== *)
theory App_Frames
  imports App Minting_Outcome
begin

text \<open>
  How the calls of \<open>Identity\<close> and \<open>App\<close> move the service: interpretations of \<open>state_order\<close> for the
  processes started, the audit lines and the limiter, and which exceptions an operation can raise.
\<close>

section \<open>Processes, audit lines, limiter\<close>

definition audits :: "service \<Rightarrow> log_event list" where
  "audits sv = filter (\<lambda>e. event e = lit ''audit'') (logged (sv_world sv))"

definition same_spawned :: "service \<Rightarrow> service \<Rightarrow> bool" where
  "same_spawned sv sv' \<longleftrightarrow> spawned (sv_world sv') = spawned (sv_world sv)"

definition same_audits :: "service \<Rightarrow> service \<Rightarrow> bool" where
  "same_audits sv sv' \<longleftrightarrow> audits sv' = audits sv"

definition same_limiter :: "service \<Rightarrow> service \<Rightarrow> bool" where
  "same_limiter sv sv' \<longleftrightarrow> sv_limiter sv' = sv_limiter sv"

interpretation ss: state_order same_spawned
  by unfold_locales (simp_all add: same_spawned_def)

interpretation au: state_order same_audits
  by unfold_locales (simp_all add: same_audits_def)

interpretation lm: state_order same_limiter
  by unfold_locales (simp_all add: same_limiter_def)

lemma lift_keeps [keeps_intro]:
  "sp.keeps m \<Longrightarrow> ss.keeps (on_world m)"
  "lg.keeps not_audit m \<Longrightarrow> au.keeps (on_world m)"
  "lm.keeps (on_world m)"
proof -
  show "ss.keeps (on_world m)" if "sp.keeps m"
    using that by (auto simp: ss.keeps_def sp.keeps_def on_world_def same_spawned_def spawn_frame_def
        split: prod.split) (metis snd_conv)
  show "lm.keeps (on_world m)"
    by (simp add: lm.keeps_def on_world_def same_limiter_def split: prod.split)
  show "au.keeps (on_world m)" if k: "lg.keeps not_audit m"
    unfolding au.keeps_def same_audits_def
  proof
    fix sv :: service
    obtain es where "logged (snd (m (sv_world sv))) = logged (sv_world sv) @ es" "list_all not_audit es"
      using k by (auto simp: lg.keeps_def log_frame_def)
    then show "audits (snd (on_world m sv)) = audits sv"
      by (cases "m (sv_world sv)")
        (auto simp: audits_def on_world_def list_all_iff not_audit_def filter_empty_conv)
  qed
qed

lemma fetch_jwks_keeps [keeps_intro]:
  "sp.keeps (fetch_jwks http url)" "lg.keeps not_audit (fetch_jwks http url)"
  unfolding fetch_jwks_def by (cases "fetch_try http url"; simp; intro keeps_intro; simp)+

lemma serve_stale_cases:
  assumes "serve_stale url entry e = Some g"
  obtains en where "entry = Some en" "is_HTTPException e" "g = andthen (on_world (log_op LOG_WARNING
      ''jwks_refresh_failed_serving_stale'' [(lit ''url'', JStr url)])) (\<lambda>_. ret (keys en))"
  using assms by (auto simp: serve_stale_def split: option.splits if_splits)

lemma cache_put_keeps [keeps_intro]:
  "ss.keeps (cache_put url en)" "au.keeps (cache_put url en)" "lm.keeps (cache_put url en)"
  by (simp_all add: ss.keeps_def au.keeps_def lm.keeps_def cache_put_def same_spawned_def
      same_audits_def same_limiter_def audits_def)

lemma get_jwks_keeps [keeps_intro]:
  "ss.keeps (get_jwks http s now0 now1)" "au.keeps (get_jwks http s now0 now1)"
  "lm.keeps (get_jwks http s now0 now1)"
proof -
  have "ss.keeps g" "au.keeps g" "lm.keeps g" if "serve_stale url entry e = Some g" for url entry e g
    by (rule serve_stale_cases [OF that], simp, intro keeps_intro, simp?)+
  note stale = this
  show "ss.keeps (get_jwks http s now0 now1)" "au.keeps (get_jwks http s now0 now1)"
    "lm.keeps (get_jwks http s now0 now1)"
    unfolding get_jwks_def get_jwks_locked_def store_jwks_def Let_def
    by (intro keeps_intro; (erule stale)?; simp?)+
qed

lemma token_refused_keeps [keeps_intro]:
  "ss.keeps (token_refused m)" "au.keeps (token_refused m)" "lm.keeps (token_refused m)"
  unfolding token_refused_def by (intro keeps_intro; simp?)+

lemma verify_keeps [keeps_intro]:
  "ss.keeps (verify_broker_token http jwt s n0 n1 t)" "au.keeps (verify_broker_token http jwt s n0 n1 t)"
  "lm.keeps (verify_broker_token http jwt s n0 n1 t)"
  unfolding verify_broker_token_def by (intro keeps_intro)+

section \<open>The shared steps of the handlers\<close>

lemma audit_keeps [keeps_intro]: "ss.keeps (audit a b c d e f)" "lm.keeps (audit a b c d e f)"
  unfolding audit_def by (intro keeps_intro)+

lemma refused_keeps [keeps_intro]:
  "ss.keeps (refused a b c d e f g h)" "lm.keeps (refused a b c d e f g h)"
  unfolding refused_def by (intro keeps_intro)+

lemma issued_keeps [keeps_intro]: "ss.keeps (issued a b c d e f)" "lm.keeps (issued a b c d e f)"
  unfolding issued_def by (intro keeps_intro)+

lemma not_authenticated_keeps [keeps_intro]: "ss.keeps (not_authenticated r)" "lm.keeps (not_authenticated r)"
  unfolding not_authenticated_def by (intro keeps_intro)+

lemma authenticate_keeps [keeps_intro]: "ss.keeps (authenticate x s t u r)" "lm.keeps (authenticate x s t u r)"
  unfolding authenticate_def
  by (intro keeps_intro; auto simp: refused_keeps split: exn.splits)+

lemma claim_keeps [keeps_intro]: "ss.keeps (claim c n)" "au.keeps (claim c n)" "lm.keeps (claim c n)"
  unfolding claim_def by (intro keeps_intro)+

lemma limiter_keeps [keeps_intro]:
  "ss.keeps (limiter_check u t)" "ss.keeps (limiter_record u t)" "ss.keeps (limiter_reset u)"
  "au.keeps (limiter_check u t)" "au.keeps (limiter_record u t)" "au.keeps (limiter_reset u)"
  by (simp_all add: ss.keeps_def au.keeps_def limiter_check_def limiter_record_def limiter_reset_def
      same_spawned_def same_audits_def audits_def split: prod.split)

lemma validation_keeps [keeps_intro]:
  "ss.keeps (valid_username_or u sub jti r)" "lm.keeps (valid_username_or u sub jti r)"
  "ss.keeps (valid_lifetimes_or l rn u sub jti r)" "lm.keeps (valid_lifetimes_or l rn u sub jti r)"
  unfolding valid_username_or_def valid_lifetimes_or_def by (intro keeps_intro)+

lemma under_limit_keeps [keeps_intro]: "ss.keeps (under_limit x u sub jti r)"
  unfolding under_limit_def
  by (intro keeps_intro; auto simp: refused_keeps split: exn.splits)

lemma buffers_keep [keeps_intro]:
  "ss.keeps (new_bytearray bs)" "au.keeps (new_bytearray bs)" "lm.keeps (new_bytearray bs)"
  "ss.keeps (password_buffer pw)" "au.keeps (password_buffer pw)" "lm.keeps (password_buffer pw)"
  "ss.keeps (credential_buffers body sub jti r)" "lm.keeps (credential_buffers body sub jti r)"
  unfolding credential_buffers_def password_buffer_def new_bytearray_def by (intro keeps_intro)+

lemma mint_failed_keeps: "mint_failed x u sub jti r e = Some g \<Longrightarrow> ss.keeps g"
  "keytab_failed x u sub jti r e = Some h \<Longrightarrow> ss.keeps h"
  "renew_refusal sub jti r e = Some i \<Longrightarrow> ss.keeps i \<and> lm.keeps i"
  unfolding mint_failed_def keytab_failed_def renew_refusal_def
  by (auto split: exn.splits intro!: keeps_intro)

end
