(* ===== verification/App_Guards.thy ===== *)
theory App_Guards
  imports App_Frames
begin

text \<open>
  What has to hold before a handler starts a process: authentication, validation and the limiter.
\<close>

definition calls :: "(invocation \<Rightarrow> bool) \<Rightarrow> 'a call \<Rightarrow> service \<Rightarrow> bool" where
  "calls Q m sv \<longleftrightarrow> spawned (sv_world (snd (m sv))) = spawned (sv_world sv)
     \<or> (\<exists>c. Q c \<and> spawned (sv_world (snd (m sv))) = spawned (sv_world sv) @ [c])"

lemma ss_run: "ss.keeps m \<Longrightarrow> spawned (sv_world (snd (m sv))) = spawned (sv_world sv)"
  by (simp add: ss.keeps_def same_spawned_def)

lemma lm_run: "lm.keeps m \<Longrightarrow> sv_limiter (snd (m sv)) = sv_limiter sv"
  by (simp add: lm.keeps_def same_limiter_def)

lemma calls_none: "ss.keeps m \<Longrightarrow> calls Q m sv"
  by (simp add: calls_def ss_run)

lemma calls_late:
  assumes "ss.keeps m" and "\<And>v sv1. m sv = (Inr v, sv1) \<Longrightarrow> calls Q (f v) sv1"
  shows "calls Q (andthen m f) sv"
proof (cases "m sv")
  case (Pair r sv1)
  then have "spawned (sv_world sv1) = spawned (sv_world sv)" using ss_run [OF assms(1), of sv] by simp
  with Pair assms(2) show ?thesis
    by (cases r) (auto simp: calls_def andthen_def)
qed

lemma calls_early:
  assumes "calls Q m sv" and "\<And>x. ss.keeps (f x)"
  shows "calls Q (andthen m f) sv"
proof (cases "m sv")
  case (Pair r sv1)
  with assms ss_run [OF assms(2)] show ?thesis
    by (cases r) (auto simp: calls_def andthen_def)
qed

lemma calls_catching:
  assumes "calls Q m sv" and "\<And>e g. h e = Some g \<Longrightarrow> ss.keeps g"
  shows "calls Q (catching m h) sv"
proof (cases "m sv")
  case (Pair r sv1)
  show ?thesis
  proof (cases r)
    case (Inl e)
    with Pair assms(1) ss_run [OF assms(2) [of e], of _ sv1] show ?thesis
      by (cases "h e") (auto simp: calls_def catching_def)
  qed (use Pair assms(1) in \<open>simp add: calls_def catching_def\<close>)
qed

lemma calls_on_world: "starts c m (sv_world sv) \<Longrightarrow> Q c \<Longrightarrow> calls Q (on_world m) sv"
  by (cases "m (sv_world sv)") (auto simp: calls_def starts_def on_world_def)

section \<open>What the shared steps establish\<close>

text \<open>None of the steps before the limiter is asked touches it.\<close>

lemma limiter_steps:
  "authenticate x s t u r sv = (q1, sv1) \<Longrightarrow> sv_limiter sv1 = sv_limiter sv"
  "claim c n sv = (q2, sv1) \<Longrightarrow> sv_limiter sv1 = sv_limiter sv"
  "valid_username_or u' sub jti r sv = (q3, sv1) \<Longrightarrow> sv_limiter sv1 = sv_limiter sv"
  "valid_lifetimes_or l rn u' sub jti r sv = (q3, sv1) \<Longrightarrow> sv_limiter sv1 = sv_limiter sv"
  "credential_buffers body sub jti r sv = (q4, sv1) \<Longrightarrow> sv_limiter sv1 = sv_limiter sv"
  using lm_run [of "authenticate x s t u r" sv] lm_run [of "claim c n" sv]
    lm_run [of "valid_username_or u' sub jti r" sv] lm_run [of "valid_lifetimes_or l rn u' sub jti r" sv]
    lm_run [of "credential_buffers body sub jti r" sv]
  by (simp_all add: authenticate_keeps claim_keeps validation_keeps buffers_keep)

lemma refused_Inl [simp]: "refused a b c d e f g h sv \<noteq> (Inr v, sv1)"
  by (simp add: refused_def andthen_def audit_def throw_def split: prod.split sum.split)

lemma authenticate_Inr:
  assumes "authenticate x s t u r sv = (Inr c, sv1)"
  shows "verify_broker_token (d_http x) (d_jwt x) s (t_jwks x) (t_jwks_locked x) t sv = (Inr c, sv1)"
  using assms
  by (cases "verify_broker_token (d_http x) (d_jwt x) s (t_jwks x) (t_jwks_locked x) t sv")
    (auto simp: authenticate_def catching_def split: sum.splits option.splits exn.splits if_splits)

lemma valid_username_Inr: "valid_username_or u sub jti r sv = (Inr v, sv1) \<Longrightarrow> validate_username u = Inr ()"
  by (auto simp: valid_username_or_def split: sum.splits)

lemma valid_lifetimes_Inr:
  "valid_lifetimes_or l rn u sub jti r sv = (Inr v, sv1) \<Longrightarrow>
     validate_lifetime l = Inr () \<and> validate_lifetime rn = Inr ()"
  by (auto simp: valid_lifetimes_or_def split: sum.splits)

lemma under_limit_Inr:
  assumes "under_limit x u sub jti r sv = (Inr v, sv1)"
  shows "fst (check (sv_limiter sv) u (t_check x)) = Inr ()"
  using assms
  by (cases "check (sv_limiter sv) u (t_check x)"; cases "fst (check (sv_limiter sv) u (t_check x))")
    (auto simp: under_limit_def catching_def limiter_check_def split: option.splits exn.splits)

lemma credential_buffers_Inr:
  assumes "credential_buffers body sub jti r sv = (Inr v, sv1)"
  obtains (password) a where "v = (Some a, None)" "rq_password body \<noteq> None"
    | (keytab) a where "v = (None, Some a)" "rq_password body = None"
  using assms
  by (auto simp: credential_buffers_def andthen_ret throw_def split: option.splits sum.splits if_splits)

lemma mint_ticket_start_cases:
  assumes "(p = Some a \<and> k = None) \<or> (p = None \<and> k = Some a)"
  shows "spawned (snd (mint_ticket env lib s u p l r k w)) = spawned w
    \<or> (\<exists>d i. fresh_dir env = Inr d \<and> spawned (snd (mint_ticket env lib s u p l r k w)) =
         spawned w @ [kinit_call env s (kinit_args s u l r (k \<noteq> None) d) i])"
proof -
  have args: "kinit_args s u l r False d = [kinit_bin s, lit ''-c'', lit ''FILE:'' @ d @ lit ''/ccache'',
      lit ''-l'', l, lit ''-r'', r, u @ lit ''@'' @ default_realm s]"
    "kinit_args s u l r True d = [kinit_bin s, lit ''-c'', lit ''FILE:'' @ d @ lit ''/ccache'',
      lit ''-k'', lit ''-t'', d @ lit ''/keytab'', lit ''-l'', l, lit ''-r'', r, u @ lit ''@'' @ default_realm s]" for d
    by (simp_all add: kinit_args_def join_path_def principal_of_def lit_append [symmetric])
  note start = mint_ticket_starts [of env lib s u a l r w, folded args, unfolded starts_def]
  show ?thesis
  proof (cases "fresh_dir env")
    case (Inl m)
    with start assms show ?thesis by auto
  next
    case (Inr d)
    with start have "spawned (snd (mint_ticket env lib s u (Some a) l r None w)) = spawned w
        \<or> spawned (snd (mint_ticket env lib s u (Some a) l r None w)) =
          spawned w @ [kinit_call env s (kinit_args s u l r False d) (Some (raw (heap w ! a) @ [10]))]"
      and "spawned (snd (mint_ticket env lib s u None l r (Some a) w)) = spawned w
        \<or> spawned (snd (mint_ticket env lib s u None l r (Some a) w)) =
          spawned w @ [kinit_call env s (kinit_args s u l r True d) None]" by simp_all
    with Inr assms show ?thesis by auto
  qed
qed

text \<open>The call of kinit that a mint request amounts to, with everything that must hold first.\<close>

definition guarded_kinit :: "deps \<Rightarrow> settings \<Rightarrow> request \<Rightarrow> mint_request \<Rightarrow> service \<Rightarrow> invocation \<Rightarrow> bool" where
  "guarded_kinit x s req body sv c \<longleftrightarrow>
     (\<exists>token claims d input.
        bearer req = Some token
        \<and> fst (verify_broker_token (d_http x) (d_jwt x) s (t_jwks x) (t_jwks_locked x) token sv) = Inr claims
        \<and> validate_username (rq_username body) = Inr ()
        \<and> validate_lifetime (str_or (rq_lifetime body) (default_lifetime s)) = Inr ()
        \<and> validate_lifetime (str_or (rq_renewable_lifetime body) (default_renewable_lifetime s)) = Inr ()
        \<and> (rq_password body = None
           \<or> fst (check (sv_limiter sv) (rq_username body) (t_check x)) = Inr ())
        \<and> fresh_dir (d_env x) = Inr d
        \<and> c = kinit_call (d_env x) s
                (kinit_args s (rq_username body) (str_or (rq_lifetime body) (default_lifetime s))
                   (str_or (rq_renewable_lifetime body) (default_renewable_lifetime s))
                   (rq_password body = None) d) input)"

lemma mint_calls: "calls (guarded_kinit x s req body sv) (mint x s req body) sv"
proof (cases "bearer req")
  case None
  then show ?thesis
    by (intro calls_none) (simp add: mint_def Let_def not_authenticated_keeps)
next
  case (Some token)
  let ?u = "rq_username body" and ?l = "str_or (rq_lifetime body) (default_lifetime s)"
    and ?r = "str_or (rq_renewable_lifetime body) (default_renewable_lifetime s)"
  show ?thesis
    unfolding mint_def Let_def Some option.case
  proof (intro calls_late keeps_intro, goal_cases)
    case (1 claims sv1 sub sv2 u1 sv3 u2 sv4 u3 sv5 bufs sv6)
    note verified = authenticate_Inr [OF 1(1)] and user = valid_username_Inr [OF 1(3)]
      and times = valid_lifetimes_Inr [OF 1(4)]
    have lim: "sv_limiter sv4 = sv_limiter sv"
      using limiter_steps(1) [OF 1(1)] limiter_steps(2) [OF 1(2)] limiter_steps(3) [OF 1(3)]
        limiter_steps(4) [OF 1(4)] by simp
    have limit: "rq_password body = None \<or> fst (check (sv_limiter sv) ?u (t_check x)) = Inr ()"
      using 1(5) lim by (cases "rq_password body") (auto dest: under_limit_Inr)
    obtain p k a where bufs: "bufs = (p, k)" "(p = Some a \<and> k = None) \<or> (p = None \<and> k = Some a)"
      and mode: "(k \<noteq> None) = (rq_password body = None)"
      using credential_buffers_Inr [OF 1(6)] by (metis option.distinct(1))
    have run: "calls (guarded_kinit x s req body sv)
        (on_world (mint_ticket (d_env x) (d_krb5 x) s ?u p ?l ?r k)) sv6"
    proof -
      have "guarded_kinit x s req body sv
          (kinit_call (d_env x) s (kinit_args s ?u ?l ?r (k \<noteq> None) d) i)" if "fresh_dir (d_env x) = Inr d" for d i
        unfolding guarded_kinit_def mode
        using Some verified user times limit that 
        by (intro exI [of _ token] exI [of _ claims] exI [of _ d] exI [of _ i]) simp
      then show ?thesis
        using mint_ticket_start_cases [OF bufs(2), of "d_env x" "d_krb5 x" s ?u ?l ?r "sv_world sv6"]
        by (cases "mint_ticket (d_env x) (d_krb5 x) s ?u p ?l ?r k (sv_world sv6)")
          (auto simp: calls_def on_world_def)
    qed
    show ?case
      unfolding bufs prod.case
      by (intro calls_early calls_catching run keeps_intro) (erule mint_failed_keeps(1))
  qed
qed

text \<open>
  C4: \<open>/v1/mint\<close> starts at most one process, and only when the bearer token was verified, the
  username and both lifetimes are well formed, and, for a password, the limiter admits the username;
  the process is kinit on exactly those values.
\<close>

theorem mint_guards_kinit:
  "spawned (sv_world (snd (mint x s req body sv))) = spawned (sv_world sv)
   \<or> (\<exists>c. guarded_kinit x s req body sv c
        \<and> spawned (sv_world (snd (mint x s req body sv))) = spawned (sv_world sv) @ [c])"
  using mint_calls by (simp add: calls_def)

section \<open>The other two endpoints\<close>

definition guarded_renew :: "deps \<Rightarrow> settings \<Rightarrow> request \<Rightarrow> pystr \<Rightarrow> service \<Rightarrow> invocation \<Rightarrow> bool" where
  "guarded_renew x s req ccache_b64 sv c \<longleftrightarrow>
     (\<exists>token claims bs info d.
        bearer req = Some token
        \<and> fst (verify_broker_token (d_http x) (d_jwt x) s (t_jwks x) (t_jwks_locked x) token sv) = Inr claims
        \<and> b64decode_validate ccache_b64 = Inr bs \<and> read_ccache (d_krb5 x) (Some bs) = Inr info
        \<and> fresh_dir (d_env x) = Inr d
        \<and> c = kinit_call (d_env x) s (renew_args s d) None)"

definition guarded_keytab ::
    "deps \<Rightarrow> settings \<Rightarrow> request \<Rightarrow> keytab_request \<Rightarrow> service \<Rightarrow> invocation \<Rightarrow> bool" where
  "guarded_keytab x s req body sv c \<longleftrightarrow>
     (\<exists>token claims d input.
        bearer req = Some token
        \<and> fst (verify_broker_token (d_http x) (d_jwt x) s (t_jwks x) (t_jwks_locked x) token sv) = Inr claims
        \<and> validate_username (kr_username body) = Inr ()
        \<and> fst (check (sv_limiter sv) (kr_username body) (t_check x)) = Inr ()
        \<and> fresh_dir (d_env x) = Inr d
        \<and> c = keytab_call (d_env x) s (kr_username body) d input)"

lemma calls_on_worldI:
  "spawned (snd (m (sv_world sv))) = spawned (sv_world sv)
   \<or> (\<exists>c. Q c \<and> spawned (snd (m (sv_world sv))) = spawned (sv_world sv) @ [c]) \<Longrightarrow>
   calls Q (on_world m) sv"
  by (cases "m (sv_world sv)") (simp add: calls_def on_world_def)

lemma renew_calls: "calls (guarded_renew x s req b sv) (renew x s req b) sv"
proof (cases "bearer req")
  case None
  then show ?thesis
    by (intro calls_none) (simp add: renew_def Let_def not_authenticated_keeps)
next
  case (Some token)
  show ?thesis
    unfolding renew_def Let_def Some option.case
  proof (rule calls_late [OF authenticate_keeps(1)], rule calls_late [OF claim_keeps(1)],
      rule calls_late, goal_cases)
    case 1
    show ?case by (intro keeps_intro)
  next
    case (2 claims sv1 sub sv2 bs sv3)
    note 1 = this
    from 1(3) have bs: "b64decode_validate b = Inr bs"
      by (auto simp: ret_def throw_def split: sum.splits if_splits)
    have "calls (guarded_renew x s req b sv) (on_world (renew_ticket (d_env x) (d_krb5 x) s bs)) sv3"
    proof (rule calls_on_worldI)
      let ?w = "sv_world sv3" and ?env = "d_env x"
      show "spawned (snd (renew_ticket ?env (d_krb5 x) s bs ?w)) = spawned ?w
        \<or> (\<exists>c. guarded_renew x s req b sv c
              \<and> spawned (snd (renew_ticket ?env (d_krb5 x) s bs ?w)) = spawned ?w @ [c])"
      proof (cases "read_ccache (d_krb5 x) (Some bs)")
        case (Inl e)
        then show ?thesis by (simp add: renew_unreadable_not_spawned)
      next
        case (Inr info)
        note start = renew_and_keytab_start [of ?env "d_krb5 x" s bs ?w, THEN conjunct1, folded renew_args_def]
        show ?thesis
        proof (cases "fresh_dir ?env")
          case (Inl m)
          with start show ?thesis by simp
        next
          case d: (Inr d)
          have "guarded_renew x s req b sv (kinit_call ?env s (renew_args s d) None)"
            unfolding guarded_renew_def
            using Some authenticate_Inr [OF 1(1)] bs Inr d
            by (intro exI [of _ token] exI [of _ claims] exI [of _ bs] exI [of _ info] exI [of _ d]) simp
          with start d show ?thesis by (auto simp: starts_def)
        qed
      qed
    qed
    then show ?case
      by (rule calls_early [OF calls_catching]) (auto dest: mint_failed_keeps(3) intro!: keeps_intro)
  qed
qed

lemma keytab_calls: "calls (guarded_keytab x s req body sv) (keytab_endpoint x s req body) sv"
proof (cases "bearer req")
  case None
  then show ?thesis
    by (intro calls_none) (simp add: keytab_endpoint_def Let_def not_authenticated_keeps)
next
  case (Some token)
  let ?u = "kr_username body" and ?env = "d_env x"
  show ?thesis
    unfolding keytab_endpoint_def Let_def Some option.case
  proof (rule calls_late [OF authenticate_keeps(1)], rule calls_late [OF claim_keeps(1)],
      rule calls_late [OF validation_keeps(1)], rule calls_late [OF under_limit_keeps],
      rule calls_late [OF buffers_keep(4)], goal_cases)
    case (1 claims sv1 sub sv2 u1 sv3 u2 sv4 a sv5)
    have "sv_limiter sv3 = sv_limiter sv"
      using limiter_steps(1) [OF 1(1)] limiter_steps(2) [OF 1(2)] limiter_steps(3) [OF 1(3)] by simp
    with under_limit_Inr 1(4) have limit: "fst (check (sv_limiter sv) ?u (t_check x)) = Inr ()" by metis
    have "calls (guarded_keytab x s req body sv) (on_world (mint_keytab ?env s ?u a)) sv5"
    proof (rule calls_on_worldI)
      let ?w = "sv_world sv5"
      note start = renew_and_keytab_start [of ?env _ s _ ?w ?u a, THEN conjunct2, folded keytab_call_def]
      show "spawned (snd (mint_keytab ?env s ?u a ?w)) = spawned ?w
        \<or> (\<exists>c. guarded_keytab x s req body sv c
              \<and> spawned (snd (mint_keytab ?env s ?u a ?w)) = spawned ?w @ [c])"
      proof (cases "fresh_dir ?env")
        case (Inl m)
        with start show ?thesis by simp
      next
        case d: (Inr d)
        have "guarded_keytab x s req body sv (keytab_call ?env s ?u d i)" for i
          unfolding guarded_keytab_def
          using Some authenticate_Inr [OF 1(1)] valid_username_Inr [OF 1(3)] limit d
          by (intro exI [of _ token] exI [of _ claims] exI [of _ d] exI [of _ i]) simp
        with start d show ?thesis by (auto simp: starts_def)
      qed
    qed
    then show ?case
      by (rule calls_early [OF calls_catching]) (auto dest: mint_failed_keeps(2) intro!: keeps_intro)
  qed
qed

text \<open>
  C19: the same for \<open>/v1/renew\<close> and \<open>/v1/keytab\<close>: \<open>kinit -R\<close> runs only for a verified token and a
  cache that parses; cern-get-keytab only for a verified token, a well-formed username and an open
  limiter. Neither starts more than one process.
\<close>

theorem renew_and_keytab_guards:
  "(spawned (sv_world (snd (renew x s req b sv))) = spawned (sv_world sv)
    \<or> (\<exists>c. guarded_renew x s req b sv c
         \<and> spawned (sv_world (snd (renew x s req b sv))) = spawned (sv_world sv) @ [c]))
   \<and> (spawned (sv_world (snd (keytab_endpoint x s req body sv))) = spawned (sv_world sv)
    \<or> (\<exists>c. guarded_keytab x s req body sv c
         \<and> spawned (sv_world (snd (keytab_endpoint x s req body sv))) = spawned (sv_world sv) @ [c]))"
  using renew_calls keytab_calls by (simp add: calls_def)

end
