(* ===== verification/Raises.thy ===== *)
theory Raises
  imports App_Frames
begin

text \<open>
  Which exceptions an operation can raise, as a predicate closed under composition, and the
  exceptions of the minting operations: the typed errors of minting.py with their fixed texts,
  \<open>MintingError\<close>, what the operating system raises, and what reading the cache raises.
\<close>

definition raises :: "(exn \<Rightarrow> bool) \<Rightarrow> ('s, 'a) act \<Rightarrow> bool" where
  "raises E m \<longleftrightarrow> (\<forall>w. case fst (m w) of Inl e \<Rightarrow> E e | Inr _ \<Rightarrow> True)"

named_theorems raises_intro

lemma raisesD: "raises E m \<Longrightarrow> m w = (Inl e, w') \<Longrightarrow> E e"
  by (auto simp: raises_def split: sum.splits) (metis fst_conv sum.inject(1) sum.distinct(1))

lemma raises_weaken: "raises E m \<Longrightarrow> (\<And>e. E e \<Longrightarrow> F e) \<Longrightarrow> raises F m"
  by (auto simp: raises_def split: sum.splits)

lemma raises_ret [raises_intro]: "raises E (ret x)"
  by (simp add: raises_def ret_def)

lemma raises_throw [raises_intro]: "E e \<Longrightarrow> raises E (throw e)"
  by (simp add: raises_def throw_def)

lemma raises_andthen [raises_intro]:
  assumes "raises E m" and "\<And>x. raises E (f x)"
  shows "raises E (andthen m f)"
  unfolding raises_def
proof
  fix w
  show "case fst (andthen m f w) of Inl e \<Rightarrow> E e | Inr _ \<Rightarrow> True"
  proof (cases "m w")
    case (Pair r w1)
    show ?thesis
    proof (cases r)
      case (Inl e)
      with Pair raisesD [OF assms(1)] show ?thesis by (simp add: andthen_def)
    next
      case (Inr x)
      with Pair assms(2) [of x] show ?thesis by (simp add: andthen_def raises_def)
    qed
  qed
qed

lemma raises_catching:
  assumes m: "raises F m" and none: "\<And>e. F e \<Longrightarrow> h e = None \<Longrightarrow> E e"
    and some: "\<And>e g. F e \<Longrightarrow> h e = Some g \<Longrightarrow> raises E g"
  shows "raises E (catching m h)"
  unfolding raises_def
proof
  fix w
  show "case fst (catching m h w) of Inl e \<Rightarrow> E e | Inr _ \<Rightarrow> True"
  proof (cases "m w")
    case (Pair r w1)
    show ?thesis
    proof (cases r)
      case (Inl e)
      with Pair have "F e" using raisesD [OF m] by simp
      with Pair Inl none some [of e] show ?thesis
        by (cases "h e") (auto simp: catching_def raises_def)
    qed (use Pair in \<open>simp add: catching_def\<close>)
  qed
qed

lemma raises_finally [raises_intro]:
  assumes "raises E m" and "raises E c"
  shows "raises E (finally_do m c)"
  unfolding raises_def
proof
  fix w
  show "case fst (finally_do m c w) of Inl e \<Rightarrow> E e | Inr _ \<Rightarrow> True"
  proof (cases "m w")
    case (Pair r w1)
    obtain q w2 where c: "c w1 = (q, w2)" by (cases "c w1")
    show ?thesis
    proof (cases q)
      case (Inl e)
      with Pair c raisesD [OF assms(2) c [unfolded Inl]] show ?thesis by (simp add: finally_do_def)
    next
      case (Inr u)
      with Pair c assms(1) [unfolded raises_def, THEN spec, of w] show ?thesis
        by (simp add: finally_do_def)
    qed
  qed
qed

lemma raises_cases [raises_intro]:
  "raises E m \<Longrightarrow> raises E n \<Longrightarrow> raises E (if b then m else n)"
  "raises E m \<Longrightarrow> (\<And>y. x = Some y \<Longrightarrow> raises E (k y)) \<Longrightarrow> raises E (case x of None \<Rightarrow> m | Some y \<Rightarrow> k y)"
  "(\<And>a b. raises E (g a b)) \<Longrightarrow> raises E (case p of (a, b) \<Rightarrow> g a b)"
  "(\<And>e. r = Inl e \<Longrightarrow> raises E (l e)) \<Longrightarrow> (\<And>v. r = Inr v \<Longrightarrow> raises E (k' v)) \<Longrightarrow>
     raises E (case r of Inl e \<Rightarrow> l e | Inr v \<Rightarrow> k' v)"
  by (simp, cases x, simp, simp, cases p, simp, cases r, simp, simp)

lemma raises_on_world [raises_intro]: "raises E m \<Longrightarrow> raises E (on_world m)"
  by (auto simp: raises_def on_world_def split: prod.split) (metis fst_conv)

lemma raises_reading [raises_intro]: "(\<And>w. raises E (f w)) \<Longrightarrow> raises E (reading f)"
  by (simp add: raises_def reading_def)

section \<open>The minting operations\<close>

definition minting_exn :: "krb5_lib \<Rightarrow> exn \<Rightarrow> bool" where
  "minting_exn lib e \<longleftrightarrow>
     (case e of
        BadPasswordError m \<Rightarrow> m = lit ''bad password''
      | BadKeytabError m \<Rightarrow> m = lit ''bad keytab''
      | UnknownPrincipalError m \<Rightarrow> m = lit ''unknown principal''
      | AccountUnusableError m \<Rightarrow> m = ACCOUNT_REVOKED_DETAIL \<or> m = PASSWORD_EXPIRED_DETAIL
      | TicketExpiredError m \<Rightarrow> m = lit ''ticket no longer renewable''
      | MintingError _ \<Rightarrow> True | OSErr _ \<Rightarrow> True | ValueErr _ \<Rightarrow> True | UnicodeErr _ \<Rightarrow> True
      | _ \<Rightarrow> False)
     \<or> (\<exists>f. read_ccache lib f = Inl e)"

text \<open>A set of exceptions that has what the operating system, the argument vector and
  \<open>MintingError\<close> raise.\<close>

definition base_exns :: "(exn \<Rightarrow> bool) \<Rightarrow> bool" where
  "base_exns E \<longleftrightarrow> (\<forall>m. E (OSErr m) \<and> E (MintingError m) \<and> E (ValueErr m) \<and> E (UnicodeErr m))"

lemma base_exnsD [simp]:
  "base_exns E \<Longrightarrow> E (OSErr m)" "base_exns E \<Longrightarrow> E (MintingError m)"
  "base_exns E \<Longrightarrow> E (ValueErr m)" "base_exns E \<Longrightarrow> E (UnicodeErr m)"
  by (simp_all add: base_exns_def)

lemma raises_prims [raises_intro]:
  assumes "base_exns E"
  shows "raises E (mkdir env p)" "raises E (write_bytes env p bs)" "raises E (chmod env p m)"
    "raises E (read_bytes env p)" "raises E (rmtree env p)" "raises E (mkdtemp env)"
  using assms
  by (simp_all add: raises_def io_prims with_fault_def throw_def mkdtemp_def split: option.split sum.split)

lemma raises_total [raises_intro]:
  "raises E (log_op l n d)" "raises E (alloc obj)" "raises E (deref a)" "raises E (append_bytes a bs)"
  "raises E (bytes_of a)" "raises E (stdin_buffer a)"
  by (simp_all add: raises_def log_op_def alloc_def deref_def append_bytes_def bytes_of_run
      stdin_buffer_run)

lemma raises_zeroing [raises_intro]: "raises E (zero_bytearray a)" "raises E (zero_if_given b)"
proof -
  have "raises E (zero_bytearray a)" for a
    unfolding raises_def
  proof
    fix w
    obtain h where "zero_bytearray a w = (Inr (), w\<lparr>heap := h\<rparr>)" using zero_bytearray_any by blast
    then show "case fst (zero_bytearray a w) of Inl e \<Rightarrow> E e | Inr _ \<Rightarrow> True" by simp
  qed
  then show "raises E (zero_bytearray a)" "raises E (zero_if_given b)"
    by (simp, cases b) (simp_all add: zero_if_given_def raises_ret)
qed

lemma raises_with_tmpdir [raises_intro]:
  "base_exns E \<Longrightarrow> (\<And>d. raises E (body d)) \<Longrightarrow> raises E (with_tmpdir env body)"
  unfolding with_tmpdir_def by (intro raises_intro)

definition cache_exns :: "krb5_lib \<Rightarrow> (exn \<Rightarrow> bool) \<Rightarrow> bool" where
  "cache_exns lib E \<longleftrightarrow> (\<forall>f. case read_ccache lib f of Inl e \<Rightarrow> E e | Inr _ \<Rightarrow> True)"

lemma raises_parse_ccache [raises_intro]: "cache_exns lib E \<Longrightarrow> raises E (parse_ccache lib p)"
  by (simp add: raises_def parse_ccache_def cache_exns_def)

lemma raises_run_child: "base_exns E \<Longrightarrow> raises (\<lambda>e. E e \<or> e = TimeoutExpired) (run_child env cmd)"
  by (simp add: raises_def run_child_def argv_error_def split: prod.split child_result.split option.split)

lemma raises_run_subprocess [raises_intro]:
  assumes "base_exns E"
  shows "raises E (run_subprocess env args i t b c ce)"
  unfolding run_subprocess_def
proof (rule raises_catching [OF raises_run_child [OF assms]])
  show "E e" if "E e \<or> e = TimeoutExpired" "subprocess_failure b c t e = None" for e
    using that by (auto simp: subprocess_failure_def)
  show "raises E g" if "subprocess_failure b c t e = Some g" for e g
    by (rule subprocess_failure_cases [OF that]) (simp, intro raises_intro, simp add: assms)
qed

lemma raises_failed [raises_intro]:
  assumes "base_exns E"
  shows "(\<And>t e. (if k then classify_keytab_stderr else classify_password_stderr) t = Some e \<Longrightarrow> E e) \<Longrightarrow>
      raises E (kinit_failed u k rc err)"
    and "(\<And>t e. classify_renew_stderr t = Some e \<Longrightarrow> E e) \<Longrightarrow> raises E (renew_failed rc err)"
    and "(\<And>t e. classify_cern_get_keytab_stderr t = Some e \<Longrightarrow> E e) \<Longrightarrow>
      raises E (cern_get_keytab_failed u rc err)"
  unfolding kinit_failed_def renew_failed_def cern_get_keytab_failed_def Let_def
  by (intro raises_intro; simp add: assms)+

lemma raises_read_or_fail [raises_intro]:
  assumes "base_exns E"
  shows "raises E (catching (read_bytes env p) (no_output n d m))"
    and "raises E (require_nonempty n d m bs)"
proof -
  show "raises E (catching (read_bytes env p) (no_output n d m))"
  proof (rule raises_catching [OF raises_prims(4) [OF assms]])
    show "raises E g" if "no_output n d m e = Some g" for e g
      by (rule no_output_cases [OF that]) (simp, intro raises_intro, simp add: assms)
  qed
  show "raises E (require_nonempty n d m bs)"
    unfolding require_nonempty_def by (intro raises_intro) (simp add: assms)
qed

lemma raises_mint_ticket:
  assumes "base_exns E" and "cache_exns lib E"
    and "\<And>t e. (if k \<noteq> None then classify_keytab_stderr else classify_password_stderr) t = Some e \<Longrightarrow> E e"
  shows "raises E (mint_ticket env lib s u p l r k)"
  unfolding mint_ticket_def mint_in_tmpdir_def mint_from_kinit_def Let_def
  by (intro raises_intro assms(1,2); (simp add: assms(1); fail)?; erule assms(3))

lemma raises_renew_ticket:
  assumes "base_exns E" and "cache_exns lib E" and "\<And>t e. classify_renew_stderr t = Some e \<Longrightarrow> E e"
  shows "raises E (renew_ticket env lib s c)"
  unfolding renew_ticket_def renew_in_tmpdir_def Let_def
  by (intro raises_intro assms(1,2); (simp add: assms(1); fail)?; erule assms(3))

lemma raises_mint_keytab:
  assumes "base_exns E" and "\<And>t e. classify_cern_get_keytab_stderr t = Some e \<Longrightarrow> E e"
  shows "raises E (mint_keytab env s u a)"
  unfolding mint_keytab_def keytab_in_tmpdir_def Let_def
  by (intro raises_intro assms(1); (simp add: assms(1); fail)?; erule assms(2))

lemma classified_minting_exn:
  "classify_password_stderr t = Some e \<Longrightarrow> minting_exn lib e"
  "classify_keytab_stderr t = Some e \<Longrightarrow> minting_exn lib e"
  "classify_renew_stderr t = Some e \<Longrightarrow> minting_exn lib e"
  "classify_cern_get_keytab_stderr t = Some e \<Longrightarrow> minting_exn lib e"
  by (auto simp: classify_password_stderr_def classify_keytab_stderr_def classify_renew_stderr_def
      classify_cern_get_keytab_stderr_def minting_exn_def split: if_splits)

lemma minting_exn_base: "base_exns (minting_exn lib)" "cache_exns lib (minting_exn lib)"
  by (auto simp: base_exns_def cache_exns_def minting_exn_def split: sum.split)

lemma minting_raises:
  "raises (minting_exn lib) (mint_ticket env lib s u p l r k)"
  "raises (minting_exn lib) (renew_ticket env lib s c)"
  "raises (minting_exn lib) (mint_keytab env s u a)"
  by (intro raises_mint_ticket raises_renew_ticket raises_mint_keytab minting_exn_base;
      auto dest: classified_minting_exn split: if_splits)+


end
