(* ===== verification/App_Samples.thy ===== *)
theory App_Samples
  imports App Minting_Outcome
begin

text \<open>
  The sample service of the witnesses: a broker whose key and token are accepted, a request and a
  body, and two Kerberos libraries and a child that answer as scripted.
\<close>

section \<open>A sample service\<close>

definition sample_jwks :: json where
  "sample_jwks = JArr [JObj [(lit ''kid'', JStr (lit ''k1''))]]"

definition sample_jwt :: jwt_lib where
  "sample_jwt = \<lparr>unverified_kid = (\<lambda>_. Inr (Some (lit ''k1''))), from_jwk = (\<lambda>_. Inr (RSAPublicKey 3233 17)),
     jwt_decode = (\<lambda>_ _ _. Inr [(lit ''sub'', JStr (lit ''alice'')), (lit ''jti'', JStr (lit ''j1''))]),
     decode_unverified = (\<lambda>_. Inr [(lit ''sub'', JStr (lit ''alice''))]), printable = (\<lambda>_. True)\<rparr>"

definition sample_deps :: "json \<Rightarrow> os_env \<Rightarrow> krb5_lib \<Rightarrow> deps" where
  "sample_deps ks env lib = \<lparr>d_env = env, d_krb5 = lib,
     d_http = \<lparr>http_get = (\<lambda>_. Inr \<lparr>status_error = None, body_json = Inr (JObj [(lit ''keys'', ks)])\<rparr>)\<rparr>,
     d_jwt = sample_jwt, d_uuid = lit ''uuid'', t_jwks = 0, t_jwks_locked = 0, t_check = 0, t_fail = 1\<rparr>"

definition sample_service :: service where
  "sample_service = \<lparr>sv_world = empty_world, sv_limiter = new_rate_limiter 3 900 900, sv_jwks = Map.empty\<rparr>"

definition sample_request :: request where
  "sample_request = \<lparr>bearer = Some (lit ''token''), x_request_id = Some (lit ''r1'')\<rparr>"

definition sample_body :: mint_request where
  "sample_body = \<lparr>rq_username = lit ''alice'', rq_password = Some (lit ''pw''), rq_keytab_b64 = None,
     rq_lifetime = None, rq_renewable_lifetime = None\<rparr>"

text \<open>kinit answers 0 and leaves a cache.\<close>

definition kinit_writes :: "bytes \<Rightarrow> os_env" where
  "kinit_writes bs = scripted_env (\<lambda>c fs. (Exited 0 [] [],
     fs(lit ''/tmp/krb5cc/t/ccache'' \<mapsto> \<lparr>content = bs, mode = 384\<rparr>)))"

text \<open>A cache whose default principal has the realm \<open>0xff\<close>, which is not UTF-8.\<close>

definition odd_realm_lib :: krb5_lib where
  "odd_realm_lib = \<lparr>init_context = None,
     cc_get_principal = (\<lambda>_. Inr \<lparr>principal_realm = [255], principal_str = Inr (lit ''alice'')\<rparr>),
     cc_credentials = (\<lambda>_. [])\<rparr>"


lemmas sample_defs = sample_jwks_def sample_jwt_def sample_deps_def sample_service_def
  sample_request_def sample_body_def kinit_writes_def odd_realm_lib_def

end
