(* ===== verification/App_Audit.thy ===== *)
theory App_Audit
  imports Raises App_Samples
begin

text \<open>
  What a client and the audit log see of a request: exactly one audit line for every HTTP answer a
  handler gives, none when an exception escapes it (FastAPI's bare 500), and a fixed set of answers.
\<close>

section \<open>Counting audit lines\<close>

text \<open>\<open>counts k m\<close>: \<open>m\<close> adds \<open>k\<close> audit lines when it returns, one when it raises an
  \<open>HTTPException\<close>, and none when it raises anything else.\<close>

definition counts :: "nat \<Rightarrow> 'a call \<Rightarrow> bool" where
  "counts k m \<longleftrightarrow> (\<forall>sv. \<exists>as. audits (snd (m sv)) = audits sv @ as
     \<and> length as = (case fst (m sv) of Inr _ \<Rightarrow> k | Inl e \<Rightarrow> if is_HTTPException e then 1 else 0))"

named_theorems counts_intro

lemma countsD:
  "counts k m \<Longrightarrow> m sv = (r, sv1) \<Longrightarrow> \<exists>as. audits sv1 = audits sv @ as
     \<and> length as = (case r of Inr _ \<Rightarrow> k | Inl e \<Rightarrow> if is_HTTPException e then 1 else 0)"
  unfolding counts_def by (metis fst_conv snd_conv)

lemma counts_andthen [counts_intro]:
  assumes "counts 0 m" and "\<And>x. counts k (f x)"
  shows "counts k (andthen m f)"
  unfolding counts_def
proof
  fix sv
  obtain r sv1 where m: "m sv = (r, sv1)" by (cases "m sv")
  from countsD [OF assms(1) m] obtain as where as: "audits sv1 = audits sv @ as"
    "length as = (case r of Inr _ \<Rightarrow> 0 | Inl e \<Rightarrow> if is_HTTPException e then 1 else 0)" by blast
  show "\<exists>as. audits (snd (andthen m f sv)) = audits sv @ as \<and> length as =
      (case fst (andthen m f sv) of Inr _ \<Rightarrow> k | Inl e \<Rightarrow> if is_HTTPException e then 1 else 0)"
  proof (cases r)
    case (Inl e)
    with as m show ?thesis by (intro exI [of _ as]) (simp add: andthen_def)
  next
    case (Inr x)
    obtain q sv2 where f: "f x sv1 = (q, sv2)" by (cases "f x sv1")
    from countsD [OF assms(2) f] obtain bs where "audits sv2 = audits sv1 @ bs"
      "length bs = (case q of Inr _ \<Rightarrow> k | Inl e \<Rightarrow> if is_HTTPException e then 1 else 0)" by blast
    with as m f Inr show ?thesis by (intro exI [of _ bs]) (simp add: andthen_def)
  qed
qed

lemma counts_silent:
  assumes "au.keeps m" and "raises (\<lambda>e. \<not> is_HTTPException e) m"
  shows "counts 0 m"
  unfolding counts_def
proof
  fix sv
  have "audits (snd (m sv)) = audits sv" using assms(1) by (simp add: au.keeps_def same_audits_def)
  with assms(2) show "\<exists>as. audits (snd (m sv)) = audits sv @ as
     \<and> length as = (case fst (m sv) of Inr _ \<Rightarrow> 0 | Inl e \<Rightarrow> if is_HTTPException e then 1 else 0)"
    by (intro exI [of _ "[]"]) (auto simp: raises_def split: sum.split dest!: spec [of _ sv])
qed

lemma counts_ret [counts_intro]: "counts 0 (ret x)"
  by (simp add: counts_def ret_def)

lemma counts_throw [counts_intro]: "\<not> is_HTTPException e \<Longrightarrow> counts k (throw e)"
  by (simp add: counts_def throw_def)

lemma audit_adds: "\<exists>a. audits (snd (audit su u pr j out r sv)) = audits sv @ [a]"
  "fst (audit su u pr j out r sv) = Inr ()"
  by (simp_all add: audit_def on_world_def log_op_def audits_def log_call_def)

lemma counts_issued [counts_intro]: "counts 1 (issued su u who j r v)"
  using audit_adds [of su u "Some who" j "''issued''" r]
  by (auto simp: issued_def counts_def andthen_ret) (metis length_0_conv length_Suc_conv)

lemma counts_refused [counts_intro]: "counts k (refused su u j out r c d h)"
  unfolding counts_def
proof
  fix sv
  obtain q sv1 where a: "audit su u None j out r sv = (q, sv1)" by (cases "audit su u None j out r sv")
  then have "q = Inr ()" "\<exists>l. audits sv1 = audits sv @ [l]"
    using audit_adds [of su u None j out r sv] by simp_all
  with a show "\<exists>as. audits (snd (refused su u j out r c d h sv)) = audits sv @ as \<and> length as =
      (case fst (refused su u j out r c d h sv) of Inr _ \<Rightarrow> k | Inl e \<Rightarrow> if is_HTTPException e then 1 else 0)"
    by (auto simp: refused_def andthen_def throw_def)
qed

lemma counts_catching:
  assumes m: "au.keeps m" "raises E m"
    and none: "\<And>e. E e \<Longrightarrow> h e = None \<Longrightarrow> \<not> is_HTTPException e"
    and some: "\<And>e g. h e = Some g \<Longrightarrow> counts 0 g"
  shows "counts 0 (catching m h)"
  unfolding counts_def
proof
  fix sv
  obtain r sv1 where r: "m sv = (r, sv1)" by (cases "m sv")
  with m(1) have same: "audits sv1 = audits sv" by (auto simp: au.keeps_def same_audits_def dest: spec [of _ sv])
  show "\<exists>as. audits (snd (catching m h sv)) = audits sv @ as \<and> length as =
      (case fst (catching m h sv) of Inr _ \<Rightarrow> 0 | Inl e \<Rightarrow> if is_HTTPException e then 1 else 0)"
  proof (cases r)
    case (Inl e)
    with r raisesD [OF m(2)] have E: "E e" by simp
    show ?thesis
    proof (cases "h e")
      case None
      with none [OF E] Inl r same show ?thesis by (simp add: catching_def)
    next
      case (Some g)
      obtain q sv2 where g: "g sv1 = (q, sv2)" by (cases "g sv1")
      from countsD [OF some [OF Some] g] Some Inl r g same show ?thesis by (simp add: catching_def)
    qed
  qed (use r same in \<open>simp add: catching_def\<close>)
qed

lemma counts_cases [counts_intro]:
  "counts k m \<Longrightarrow> counts k n \<Longrightarrow> counts k (if b then m else n)"
  "counts k m \<Longrightarrow> (\<And>y. x = Some y \<Longrightarrow> counts k (f y)) \<Longrightarrow> counts k (case x of None \<Rightarrow> m | Some y \<Rightarrow> f y)"
  "(\<And>a b. counts k (g a b)) \<Longrightarrow> counts k (case p of (a, b) \<Rightarrow> g a b)"
  "(\<And>e. r = Inl e \<Longrightarrow> counts k (l e)) \<Longrightarrow> (\<And>v. r = Inr v \<Longrightarrow> counts k (q v)) \<Longrightarrow>
     counts k (case r of Inl e \<Rightarrow> l e | Inr v \<Rightarrow> q v)"
  by (simp, cases x, simp, simp, cases p, simp, cases r, simp, simp)

section \<open>The steps\<close>

text \<open>The Kerberos library raises none of the exceptions that mean something to the handlers.\<close>

fun is_typed_error :: "exn \<Rightarrow> bool" where
  "is_typed_error (BadPasswordError _) = True"
| "is_typed_error (BadKeytabError _) = True"
| "is_typed_error (UnknownPrincipalError _) = True"
| "is_typed_error (AccountUnusableError _) = True"
| "is_typed_error (TicketExpiredError _) = True"
| "is_typed_error _ = False"

lemma typed_BadPassword: "\<not> is_typed_error e \<Longrightarrow> \<not> is_BadPasswordError e"
  by (cases e) simp_all

definition plain_krb5 :: "krb5_lib \<Rightarrow> bool" where
  "plain_krb5 lib \<longleftrightarrow> cache_exns lib (\<lambda>e. \<not> is_HTTPException e \<and> \<not> is_typed_error e)"

lemma minting_exn_plain: "plain_krb5 lib \<Longrightarrow> minting_exn lib e \<Longrightarrow> \<not> is_HTTPException e"
  by (auto simp: minting_exn_def plain_krb5_def cache_exns_def split: exn.splits sum.splits)
    (metis is_HTTPException.simps(1))

lemma counts_steps [counts_intro]:
  "counts 0 (claim c n)" "counts 0 (limiter_record u t)" "counts 0 (limiter_reset u)"
  "counts 0 (new_bytearray bs)" "counts 0 (password_buffer pw)" "counts k (not_authenticated r)"
  "counts 0 (valid_username_or u su j r)" "counts 0 (valid_lifetimes_or l rn u su j r)"
proof -
  have new: "counts 0 (new_bytearray bs)" for bs
    unfolding new_bytearray_def by (intro counts_silent lift_keeps keeps_intro raises_intro)
  then show "counts 0 (new_bytearray bs)" .
  show "counts 0 (password_buffer pw)"
    unfolding password_buffer_def
    by (intro counts_intro new) (simp add: utf8_encode_def split: if_splits, clarsimp)
  show "counts 0 (claim c n)" "counts k (not_authenticated r)"
    "counts 0 (valid_username_or u su j r)" "counts 0 (valid_lifetimes_or l rn u su j r)"
    unfolding claim_def not_authenticated_def valid_username_or_def valid_lifetimes_or_def
    by (intro counts_intro; simp)+
  show "counts 0 (limiter_record u t)" "counts 0 (limiter_reset u)"
    by (intro counts_silent limiter_keeps, simp add: raises_def limiter_record_def limiter_reset_def)+
qed

lemma counts_under_limit [counts_intro]: "counts 0 (under_limit x u su j r)"
  unfolding under_limit_def
proof (rule counts_catching [OF limiter_keeps(4)])
  show "raises (\<lambda>e. \<exists>d. e = RateLimitedError d) (limiter_check u (t_check x))"
    by (simp add: raises_def limiter_check_def check_def split: option.split prod.split)
qed (auto intro: counts_intro split: exn.splits)

lemma counts_authenticate [counts_intro]: "counts 0 (authenticate x s t u r)"
  unfolding authenticate_def
proof (rule counts_catching [OF verify_keeps(2)])
  show "raises (\<lambda>_. True) (verify_broker_token http jwt s n0 n1 t)" for http jwt n0 n1
    by (simp add: raises_def split: sum.split)
qed (auto intro: counts_intro split: exn.splits)

lemma counts_credential_buffers [counts_intro]: "counts 0 (credential_buffers body su j r)"
  unfolding credential_buffers_def
  by (intro counts_intro; auto dest: b64decode_plain)

lemma minting_silent:
  "au.keeps (on_world (mint_ticket env lib s u p l r k))"
  "au.keeps (on_world (renew_ticket env lib s c))"
  "au.keeps (on_world (mint_keytab env s u a))"
  unfolding mint_ticket_def renew_ticket_def mint_keytab_def
  by (intro keeps_intro)+

lemma counts_minting:
  assumes "plain_krb5 lib"
  shows "counts 0 (catching (on_world (mint_ticket env lib s u p l r k)) (mint_failed x u su j rid))"
    and "counts 0 (catching (on_world (renew_ticket env lib s c)) (renew_refusal su j rid))"
    and "counts 0 (catching (on_world (mint_keytab env s u a)) (keytab_failed x u su j rid))"
proof -
  note raise = minting_raises [where lib = lib, THEN raises_on_world] and plain = minting_exn_plain [OF assms]
  show "counts 0 (catching (on_world (mint_ticket env lib s u p l r k)) (mint_failed x u su j rid))"
    by (rule counts_catching [OF minting_silent(1) raise(1)])
      (auto simp: mint_failed_def dest: plain intro!: counts_intro split: exn.splits)
  show "counts 0 (catching (on_world (renew_ticket env lib s c)) (renew_refusal su j rid))"
    by (rule counts_catching [OF minting_silent(2) raise(2)])
      (auto simp: renew_refusal_def dest: plain intro!: counts_intro split: exn.splits)
  show "counts 0 (catching (on_world (mint_keytab env s u a)) (keytab_failed x u su j rid))"
    by (rule counts_catching [OF minting_silent(3) raise(3)])
      (auto simp: keytab_failed_def dest: plain intro!: counts_intro split: exn.splits)
qed

lemma handlers_count:
  assumes "plain_krb5 (d_krb5 x)"
  shows "counts 1 (mint x s req body)" and "counts 1 (renew x s req b64)"
    and "counts 1 (keytab_endpoint x s req kbody)"
proof -
  note minting = counts_minting [OF assms]
  show "counts 1 (mint x s req body)"
    unfolding mint_def Let_def by (intro counts_intro minting)
  show "counts 1 (renew x s req b64)"
    unfolding renew_def Let_def by (intro counts_intro minting; auto dest: b64decode_plain)
  show "counts 1 (keytab_endpoint x s req kbody)"
    unfolding keytab_endpoint_def Let_def by (intro counts_intro minting)
qed

lemma plain_sample [simp]: "plain_krb5 (d_krb5 (sample_deps ks env (failing_lib (Krb5Error (lit ''bad'')))))"
  by (simp add: sample_defs failing_lib_def plain_krb5_def cache_exns_def read_ccache_def read_ccache_try_def)

text \<open>
  C16: every request that reaches a handler leaves exactly one audit line when the client gets an
  answer from the handler, success or \<open>HTTPException\<close>, and none when an exception escapes as a bare
  500. (The Kerberos library does not raise FastAPI's exceptions.)
\<close>

theorem one_audit_line_per_answer:
  assumes "plain_krb5 (d_krb5 x)"
  shows "counts 1 (mint x s req body) \<and> counts 1 (renew x s req b64)
    \<and> counts 1 (keytab_endpoint x s req kbody)"
  using handlers_count [OF assms] by blast

theorem one_audit_line_per_answer_witness:
  "let x = sample_deps sample_jwks (kinit_writes [5, 4]) (failing_lib (Krb5Error (lit ''bad'')))
   in counts 1 (mint x default_settings sample_request sample_body)
    \<and> counts 1 (renew x default_settings sample_request (lit ''BQQ=''))
    \<and> counts 1 (keytab_endpoint x default_settings sample_request
         \<lparr>kr_username = lit ''alice'', kr_password = lit ''pw''\<rparr>)"
  unfolding Let_def by (rule one_audit_line_per_answer [OF plain_sample])

end
