(* ===== verification/Identity_Spec.thy ===== *)
theory Identity_Spec
  imports App_Frames
begin

text \<open>
  What the JWKS cache serves, when it fetches, and which tokens are accepted.
\<close>

section \<open>The cache\<close>

text \<open>What a call of \<open>get_jwks\<close> answers, as a function of the entry, the two readings and what a
  fetch would give.\<close>

definition jwks_answer :: "settings \<Rightarrow> jwks_entry option \<Rightarrow> rat \<Rightarrow> rat \<Rightarrow> exn + json \<Rightarrow> exn + json" where
  "jwks_answer s entry now0 now1 fetched =
     (case fresh_entry s entry now0 of Some ks \<Rightarrow> Inr ks | None \<Rightarrow>
      case fresh_entry s entry now1 of Some ks \<Rightarrow> Inr ks | None \<Rightarrow>
      case fetched of
        Inr ks \<Rightarrow> map_sum id (\<lambda>_. ks) (py_len ks)
      | Inl _ \<Rightarrow> (case entry of
                   Some en \<Rightarrow> Inr (keys en)
                 | None \<Rightarrow> Inl (HTTPException 502 (lit ''Unable to reach JWKS endpoint: ''
                             @ broker_jwks_url s) [])))"

definition jwks_entry_after :: "settings \<Rightarrow> jwks_entry option \<Rightarrow> rat \<Rightarrow> rat \<Rightarrow> exn + json \<Rightarrow> jwks_entry option" where
  "jwks_entry_after s entry now0 now1 fetched =
     (if fresh_entry s entry now0 \<noteq> None \<or> fresh_entry s entry now1 \<noteq> None then entry
      else case fetched of Inr ks \<Rightarrow> Some \<lparr>keys = ks, fetched_at = now1\<rparr> | Inl _ \<Rightarrow> entry)"

lemma fetch_jwks_run:
  "fetch_jwks http url w =
     (case fetch_try http url of
        Inr ks \<Rightarrow> (Inr ks, w)
      | Inl e \<Rightarrow> (Inl (HTTPException 502 (lit ''Unable to reach JWKS endpoint: '' @ url) []),
                  snd (log_op LOG_ERROR ''jwks_fetch_failed''
                         [(lit ''url'', JStr url), (lit ''error'', JStr (exn_str e))] w)))"
  by (simp add: fetch_jwks_def ret_def andthen_def log_op_def throw_def split: sum.split)

lemma get_jwks_run:
  "fst (get_jwks http s now0 now1 sv) =
     jwks_answer s (sv_jwks sv (broker_jwks_url s)) now0 now1 (fetch_try http (broker_jwks_url s))
   \<and> sv_jwks (snd (get_jwks http s now0 now1 sv)) =
     (if jwks_entry_after s (sv_jwks sv (broker_jwks_url s)) now0 now1 (fetch_try http (broker_jwks_url s))
         = sv_jwks sv (broker_jwks_url s)
      then sv_jwks sv
      else (sv_jwks sv)(broker_jwks_url s :=
        jwks_entry_after s (sv_jwks sv (broker_jwks_url s)) now0 now1 (fetch_try http (broker_jwks_url s))))"
proof -
  let ?url = "broker_jwks_url s"
  let ?en = "sv_jwks sv ?url"
  show ?thesis
  proof (cases "fresh_entry s ?en now0")
    case (Some ks)
    then show ?thesis
      by (simp add: get_jwks_def reading_def jwks_answer_def jwks_entry_after_def ret_def)
  next
    case None
    show ?thesis
    proof (cases "fresh_entry s ?en now1")
      case (Some ks)
      with None show ?thesis
        by (simp add: get_jwks_def get_jwks_locked_def reading_def jwks_answer_def jwks_entry_after_def
            ret_def Let_def)
    next
      case none1: None
      note start = get_jwks_def get_jwks_locked_def reading_def Let_def try_else_def
        on_world_def fetch_jwks_run
      show ?thesis
      proof (cases "fetch_try http ?url")
        case (Inl e)
        with None none1 show ?thesis
          by (cases ?en) (simp_all add: start jwks_answer_def jwks_entry_after_def serve_stale_def
              andthen_def ret_def log_op_def)
      next
        case (Inr ks)
        have same: "(sv_jwks sv)(?url \<mapsto> en) = sv_jwks sv" if "Some en = ?en" for en
          using that by (simp add: fun_upd_idem)
        from Inr None none1 show ?thesis
          by (cases "py_len ks") (auto simp: start jwks_answer_def jwks_entry_after_def store_jwks_def
              cache_put_def andthen_def ret_def throw_def log_op_def same fun_upd_idem)
      qed
    qed
  qed
qed


text \<open>
  A broker blip does not take verification down: once the keys are cached, a failing endpoint
  never makes \<open>get_jwks\<close> raise, at whatever time it is asked.
\<close>

lemma jwks_blip_served:
  assumes "sv_jwks sv (broker_jwks_url s) = Some en" and "fetch_try http (broker_jwks_url s) = Inl e"
  shows "fst (get_jwks http s now0 now1 sv) = Inr (keys en)
    \<and> sv_jwks (snd (get_jwks http s now0 now1 sv)) = sv_jwks sv"
  using get_jwks_run [of http s now0 now1 sv] assms
  by (simp add: jwks_answer_def jwks_entry_after_def fresh_entry_def split: option.split)

section \<open>Key selection\<close>

lemma find_kid_objects:
  "find_kid (map JObj ds) kid =
     Inr (case find (\<lambda>d. map_of d (lit ''kid'') = Some (JStr kid)) ds of None \<Rightarrow> JNull | Some d \<Rightarrow> JObj d)"
  by (induction ds) simp_all

text \<open>On a JWKS that lists objects: the first key with the token's \<open>kid\<close>, or the key of a single-key set.\<close>

lemma select_objects:
  "select_jwk (JArr (map JObj ds)) kid =
     Inr (case kid of
            Some k \<Rightarrow> (case find (\<lambda>d. map_of d (lit ''kid'') = Some (JStr k)) ds of
                        None \<Rightarrow> JNull | Some d \<Rightarrow> JObj d)
          | None \<Rightarrow> if length ds = 1 then JObj (hd ds) else JNull)"
proof (cases kid)
  case None
  then show ?thesis
    by (cases ds; cases "tl ds") (simp_all add: select_jwk_def py_len_def)
qed (simp add: select_jwk_def find_kid_objects)

section \<open>Token verification\<close>

lemma token_refused_run:
  "fst (token_refused m sv) = Inl (HTTPException 401 (lit ''Invalid or expired token'')
     [(lit ''WWW-Authenticate'', lit ''Bearer'')])"
  by (simp add: token_refused_def andthen_def on_world_def log_op_def throw_def)

definition verify_verdict :: "exn + (pystr + event_dict) \<Rightarrow> exn + event_dict" where
  "verify_verdict v =
     (case v of
        Inr (Inr claims) \<Rightarrow> Inr claims
      | Inr (Inl _) \<Rightarrow> Inl (HTTPException 401 (lit ''Invalid or expired token'')
                            [(lit ''WWW-Authenticate'', lit ''Bearer'')])
      | Inl e \<Rightarrow> if is_PyJWTError e \<or> is_ValueError e \<or> is_KeyError e
                 then Inl (HTTPException 401 (lit ''Invalid or expired token'')
                        [(lit ''WWW-Authenticate'', lit ''Bearer'')])
                 else Inl e)"

lemma verify_run:
  "fst (verify_broker_token http jwt s now0 now1 token sv) =
     (case fst (get_jwks http s now0 now1 sv) of
        Inl e \<Rightarrow> Inl e
      | Inr ks \<Rightarrow> verify_verdict (verify_try jwt s token ks))"
  by (cases "get_jwks http s now0 now1 sv"; cases "fst (get_jwks http s now0 now1 sv)")
    (auto simp: verify_broker_token_def verify_verdict_def andthen_Inl andthen_Inr token_refused_run
      throw_def ret_def split: sum.split)

text \<open>
  C5: a token is accepted exactly when the keys are there, its \<open>kid\<close> selects one of them, that key is
  a public key, and PyJWT decodes the token under it with RS256 only, the configured audience and
  issuer, expiry checked and \<open>exp\<close>, \<open>iat\<close>, \<open>sub\<close> required; the claims returned are PyJWT's.
\<close>

theorem verify_accepts_exactly:
  "fst (verify_broker_token http jwt s now0 now1 token sv) = Inr claims \<longleftrightarrow>
     (\<exists>ks kid key_data pk.
        fst (get_jwks http s now0 now1 sv) = Inr ks \<and> unverified_kid jwt token = Inr kid
        \<and> select_jwk ks kid = Inr key_data \<and> key_data \<noteq> JNull \<and> from_jwk jwt key_data = Inr pk
        \<and> jwt_decode jwt token pk
            \<lparr>algorithms = [lit ''RS256''], audience = expected_audience s, issuer = broker_issuer s,
             verify_exp = True, require = [lit ''exp'', lit ''iat'', lit ''sub'']\<rparr> = Inr claims)"
proof -
  have "verify_verdict (verify_try jwt s token ks) = Inr claims \<longleftrightarrow>
      (\<exists>kid key_data pk. unverified_kid jwt token = Inr kid \<and> select_jwk ks kid = Inr key_data
        \<and> key_data \<noteq> JNull \<and> from_jwk jwt key_data = Inr pk
        \<and> jwt_decode jwt token pk (decode_args_of s) = Inr claims)" for ks
    by (auto simp: verify_verdict_def verify_try_def split: sum.splits)
  then show ?thesis
    unfolding verify_run decode_args_of_def [symmetric]
    by (cases "fst (get_jwks http s now0 now1 sv)") auto
qed

definition raises_named :: "exn + 'a \<Rightarrow> bool" where
  "raises_named r = (case r of Inr _ \<Rightarrow> True | Inl e \<Rightarrow> is_PyJWTError e \<or> is_ValueError e \<or> is_KeyError e)"



end
