(* ===== verification/Gate.thy ===== *)
theory Gate
  imports Ratelimit
begin

text \<open>
  The limiter as the handlers drive it. A handler of app.py that takes a password runs in two
  atomic segments, because asyncio switches tasks at \<open>await\<close> only: the first calls
  \<open>check\<close> and starts the subprocess, the second classifies the result and calls
  \<open>record_failure\<close> (a wrong password), \<open>reset\<close> (success) or neither (any other failure). A request
  may also end right after \<open>check\<close>, refused or for another reason (\<open>dismiss\<close>). The
  gate machine interleaves those segments of any number of requests; \<open>k\<close> bounds how many
  attempts of one username are in flight together.
\<close>

record gate =
  limiter :: rate_limiter
  clock :: rat
  in_flight :: "pystr \<Rightarrow> nat"
  bad_times :: "pystr \<Rightarrow> rat list"

definition init_gate :: "int \<Rightarrow> rat \<Rightarrow> rat \<Rightarrow> gate" where
  "init_gate m w l = \<lparr>limiter = new_rate_limiter m w l, clock = 0, in_flight = (\<lambda>_. 0),
     bad_times = (\<lambda>_. [])\<rparr>"

definition admit_attempt :: "gate \<Rightarrow> pystr \<Rightarrow> rate_limiter \<Rightarrow> gate" where
  "admit_attempt g u rl = g\<lparr>limiter := rl, in_flight := (in_flight g)(u := Suc (in_flight g u))\<rparr>"

definition answer_bad :: "gate \<Rightarrow> pystr \<Rightarrow> gate" where
  "answer_bad g u = g\<lparr>limiter := record_failure (limiter g) u (clock g),
     in_flight := (in_flight g)(u := in_flight g u - 1),
     bad_times := (bad_times g)(u := bad_times g u @ [clock g])\<rparr>"

definition answer_good :: "gate \<Rightarrow> pystr \<Rightarrow> gate" where
  "answer_good g u = g\<lparr>limiter := reset (limiter g) u,
     in_flight := (in_flight g)(u := in_flight g u - 1),
     bad_times := (bad_times g)(u := [])\<rparr>"

definition answer_other :: "gate \<Rightarrow> pystr \<Rightarrow> gate" where
  "answer_other g u = g\<lparr>in_flight := (in_flight g)(u := in_flight g u - 1)\<rparr>"

inductive gate_step :: "nat \<Rightarrow> gate \<Rightarrow> gate \<Rightarrow> bool" for k :: nat where
  tick: "0 \<le> d \<Longrightarrow> gate_step k g (g\<lparr>clock := clock g + d\<rparr>)"
| dismiss: "check (limiter g) u (clock g) = (q, rl) \<Longrightarrow> gate_step k g (g\<lparr>limiter := rl\<rparr>)"
| admit: "check (limiter g) u (clock g) = (Inr (), rl) \<Longrightarrow> in_flight g u < k \<Longrightarrow>
    gate_step k g (admit_attempt g u rl)"
| bad: "0 < in_flight g u \<Longrightarrow> gate_step k g (answer_bad g u)"
| good: "0 < in_flight g u \<Longrightarrow> gate_step k g (answer_good g u)"
| other: "0 < in_flight g u \<Longrightarrow> gate_step k g (answer_other g u)"

inductive gate_reachable :: "nat \<Rightarrow> gate \<Rightarrow> gate \<Rightarrow> bool" for k :: nat and g0 :: gate where
  start: "gate_reachable k g0 g0"
| step: "gate_reachable k g0 g \<Longrightarrow> gate_step k g g' \<Longrightarrow> gate_reachable k g0 g'"

lemmas gate_ops = admit_attempt_def answer_bad_def answer_good_def answer_other_def

section \<open>The budget\<close>

definition gate_inv :: "nat \<Rightarrow> gate \<Rightarrow> bool" where
  "gate_inv k g \<longleftrightarrow> 0 < max_attempts (limiter g)
     \<and> (\<forall>u. rl.history_ok k (limiter g) u (bad_times g u) (clock g) (in_flight g u))"

lemma gate_inv_init: "0 < m \<Longrightarrow> gate_inv k (init_gate m w l)"
  by (simp add: gate_inv_def init_gate_def new_rate_limiter_def rl.history_start times_of_def
      lock_of_def)

lemma history_other_user:
  assumes "rl.history_ok k rl0 v F t n" and "limiter_state rl1 v = limiter_state rl0 v"
    and "same_config rl0 rl1"
  shows "rl.history_ok k rl1 v F t n"
  using assms(1)
proof (rule rl.history_frame)
  show "times_of rl1 v = times_of rl0 v" "lock_of rl1 v = lock_of rl0 v"
    using assms(2) by (simp_all add: times_of_def lock_of_def)
qed (use assms(3) in \<open>simp_all add: same_config_def\<close>)

lemma gate_invI:
  assumes inv: "gate_inv k g" and cfg: "same_config (limiter g) (limiter g')"
    and same: "\<And>v. v \<noteq> u \<Longrightarrow> limiter_state (limiter g') v = limiter_state (limiter g) v"
      "\<And>v. v \<noteq> u \<Longrightarrow> in_flight g' v = in_flight g v" "\<And>v. v \<noteq> u \<Longrightarrow> bad_times g' v = bad_times g v"
      "clock g' = clock g"
    and u: "rl.history_ok k (limiter g') u (bad_times g' u) (clock g) (in_flight g' u)"
  shows "gate_inv k g'"
proof -
  have "rl.history_ok k (limiter g') v (bad_times g' v) (clock g) (in_flight g' v)" if "v \<noteq> u" for v
    using inv that by (simp add: same gate_inv_def history_other_user [OF _ same(1) cfg])
  with inv u cfg same show ?thesis
    unfolding gate_inv_def same_config_def by metis
qed

lemma check_other: "v \<noteq> u \<Longrightarrow> limiter_state (snd (check rl u now)) v = limiter_state rl v"
  by (simp add: check_def split: option.split)

lemma gate_inv_step:
  assumes st: "gate_step k g g'" and inv: "gate_inv k g"
  shows "gate_inv k g'"
proof -
  have m: "0 < max_attempts (limiter g)"
    and h: "rl.history_ok k (limiter g) u (bad_times g u) (clock g) (in_flight g u)" for u
    using inv by (simp_all add: gate_inv_def)
  show ?thesis
    using st
  proof (cases rule: gate_step.cases)
    case (tick d)
    with inv show ?thesis
      by (auto simp: gate_inv_def intro: rl.history_tick)
  next
    case (dismiss u q rl)
    have "rl.history_ok k rl u (bad_times g u) (clock g) (in_flight g u)"
      by (rule rl.history_dismiss [OF h dismiss(2) m])
    with dismiss show ?thesis
      using check_config [of "limiter g" u "clock g"] check_other [of _ u "limiter g" "clock g"]
      by (intro gate_invI [OF inv, of _ u]) auto
  next
    case (admit u rl)
    from rl.history_admit [OF h admit(2) m admit(3)] admit show ?thesis
      using check_config [of "limiter g" u "clock g"] check_other [of _ u "limiter g" "clock g"]
      by (intro gate_invI [OF inv, of _ u]) (auto simp: admit_attempt_def)
  next
    case (bad u)
    then obtain n where n: "in_flight g u = Suc n" using gr0_implies_Suc by blast
    from rl.history_bad [OF h [of u, unfolded n] m] n bad(1) show ?thesis
      by (intro gate_invI [OF inv, of _ u])
        (simp_all add: answer_bad_def record_failure_config record_failure_other)
  next
    case (good u)
    have "in_flight g u \<le> k" using h [of u] by (simp add: rl.history_ok_def)
    with good rl.history_good [OF m, of "in_flight g u - 1" k u "clock g"] show ?thesis
      by (intro gate_invI [OF inv, of _ u]) (simp_all add: answer_good_def reset_config reset_other)
  next
    case (other u)
    from rl.history_idle [OF h, of "in_flight g u - 1" u] other(1) show ?thesis
      by (intro gate_invI [OF inv, of _ u]) (simp_all add: answer_other_def same_config_def)
  qed
qed

lemma gate_run_trans: "gate_reachable k g1 g2 \<Longrightarrow> gate_reachable k g0 g1 \<Longrightarrow> gate_reachable k g0 g2"
  by (induction rule: gate_reachable.induct) (auto intro: gate_reachable.step)

lemma gate_reachable_inv: "gate_reachable k g0 g \<Longrightarrow> gate_inv k g0 \<Longrightarrow> gate_inv k g"
  by (induction rule: gate_reachable.induct) (auto intro: gate_inv_step)

lemma gate_config_step:
  assumes "gate_step k g g'"
  shows "same_config (limiter g) (limiter g')"
  using assms
proof (cases rule: gate_step.cases)
  case (dismiss u q rl)
  then show ?thesis using check_config [of "limiter g" u "clock g"] by simp
next
  case (admit u rl)
  then show ?thesis using check_config [of "limiter g" u "clock g"] by (simp add: gate_ops)
qed (simp_all add: gate_ops record_failure_config reset_config, simp_all add: same_config_def)

lemma gate_config_reachable:
  "gate_reachable k g0 g \<Longrightarrow> same_config (limiter g0) (limiter g)"
  by (induction rule: gate_reachable.induct)
    (use gate_config_step in \<open>auto simp: same_config_def\<close>)

text \<open>
  How many wrong passwords of one username reach CERN, with at most \<open>k\<close> of its attempts in flight
  together: within any time shorter than both the window and the lockout, and with no success
  between them, at most \<open>max_attempts + 2 * (k - 1)\<close>. For attempts that do not overlap (\<open>k = 1\<close>)
  that is the documented \<open>max_attempts\<close>.
\<close>

lemma attempt_budget:
  assumes "gate_reachable k (init_gate m w l) g" and "0 < m"
    and "i + (nat m + 2 * (k - 1)) < length (bad_times g u)"
  shows "min w l \<le> bad_times g u ! (i + (nat m + 2 * (k - 1))) - bad_times g u ! i"
proof -
  have "gate_inv k g"
    using assms gate_inv_init by (blast intro: gate_reachable_inv)
  then have h: "rl.history_ok k (limiter g) u (bad_times g u) (clock g) (in_flight g u)"
    by (simp add: gate_inv_def)
  have "max_attempts (limiter g) = m \<and> window_seconds (limiter g) = w \<and> lockout_seconds (limiter g) = l"
    using gate_config_reachable [OF assms(1)]
    by (simp add: same_config_def init_gate_def new_rate_limiter_def)
  with rl.history_spacing [OF h, of i] assms(3) show ?thesis by simp
qed

section \<open>Overlapping attempts\<close>

lemma admit_many:
  "n \<le> k \<Longrightarrow> gate_reachable k (init_gate m w l)
     (init_gate m w l \<lparr>in_flight := (\<lambda>_. 0)(u := n)\<rparr>)"
proof (induction n)
  case 0
  have "init_gate m w l \<lparr>in_flight := (\<lambda>_. 0)(u := 0)\<rparr> = init_gate m w l"
    by (simp add: init_gate_def fun_upd_idem)
  then show ?case by (metis gate_reachable.start)
next
  case (Suc n)
  let ?g = "init_gate m w l \<lparr>in_flight := (\<lambda>_. 0)(u := n)\<rparr>"
  have "gate_step k ?g (admit_attempt ?g u (new_rate_limiter m w l))"
    using Suc.prems
    by (intro gate_step.admit) (simp_all add: init_gate_def check_def new_rate_limiter_def)
  moreover have "admit_attempt ?g u (new_rate_limiter m w l)
      = init_gate m w l \<lparr>in_flight := (\<lambda>_. 0)(u := Suc n)\<rparr>"
    by (simp add: init_gate_def admit_attempt_def)
  ultimately show ?case
    using Suc.IH Suc.prems by (metis Suc_leD gate_reachable.step)
qed

lemma answer_many:
  assumes "gate_reachable k g0 g" and "in_flight g u = a + n"
  shows "\<exists>g'. gate_reachable k g0 g' \<and> in_flight g' u = a \<and> clock g' = clock g
     \<and> bad_times g' u = bad_times g u @ replicate n (clock g)"
  using assms
proof (induction n arbitrary: g)
  case 0
  then show ?case by auto
next
  case (Suc n)
  have "gate_reachable k g0 (answer_bad g u)"
    using Suc.prems by (intro gate_reachable.step [OF Suc.prems(1)] gate_step.bad) simp
  from Suc.IH [OF this] Suc.prems(2) show ?case
    by (simp add: answer_bad_def)
qed


section \<open>A lockout ends\<close>

definition locks_bounded :: "gate \<Rightarrow> bool" where
  "locks_bounded g \<longleftrightarrow> (\<forall>u t. lock_of (limiter g) u = Some t \<longrightarrow> t \<le> clock g + lockout_seconds (limiter g))"

lemma lock_of_check: "lock_of (snd (check rl u now)) v = Some t \<Longrightarrow> lock_of rl v = Some t"
  by (auto simp: check_def lock_of_def split: option.splits if_splits)

lemma locks_bounded_step:
  assumes "gate_step k g g'" and b: "locks_bounded g"
  shows "locks_bounded g'"
  using assms(1)
proof (cases rule: gate_step.cases)
  case (tick d)
  with b show ?thesis by (fastforce simp: locks_bounded_def)
next
  case (dismiss u q rl)
  then have "rl = snd (check (limiter g) u (clock g))" by simp
  with dismiss(1) b check_config [of "limiter g" u "clock g"] show ?thesis
    by (auto simp: locks_bounded_def same_config_def dest: lock_of_check)
next
  case (admit u rl)
  then have "rl = snd (check (limiter g) u (clock g))" by simp
  with admit(1) b check_config [of "limiter g" u "clock g"] show ?thesis
    by (auto simp: locks_bounded_def admit_attempt_def same_config_def dest: lock_of_check)
next
  case (bad u)
  have "lock_of (record_failure (limiter g) u (clock g)) v = Some t \<Longrightarrow>
      t \<le> clock g + lockout_seconds (limiter g)" for v t
    using b by (cases "v = u") (auto simp: locks_bounded_def lock_of_record_failure
      observe_other [OF record_failure_other] split: if_splits)
  with bad record_failure_config [of "limiter g" u "clock g"] show ?thesis
    by (simp add: locks_bounded_def answer_bad_def same_config_def)
next
  case (good u)
  have "lock_of (reset (limiter g) u) v = Some t \<Longrightarrow> lock_of (limiter g) v = Some t" for v t
    by (cases "v = u") (simp_all add: reset_same observe_other [OF reset_other])
  with good b reset_config [of "limiter g" u] show ?thesis
    by (auto simp: locks_bounded_def answer_good_def same_config_def)
next
  case (other u)
  with b show ?thesis by (simp add: locks_bounded_def answer_other_def)
qed

lemma locks_bounded_reachable: "gate_reachable k g0 g \<Longrightarrow> locks_bounded g0 \<Longrightarrow> locks_bounded g"
  by (induction rule: gate_reachable.induct) (auto intro: locks_bounded_step)

text \<open>
  C31: no username stays locked out: from every state the service can get into, letting the lockout
  time pass with no further answer is enough for an attempt of any username to be admitted.
\<close>

theorem lockout_is_temporary:
  assumes "gate_reachable k (init_gate m w l) g" and "0 \<le> l" and "in_flight g u < k"
  shows "\<exists>g'. gate_reachable k g g' \<and> clock g' = clock g + l \<and> in_flight g' u = Suc (in_flight g u)"
proof -
  let ?g = "g\<lparr>clock := clock g + l\<rparr>"
  have "locks_bounded g"
    by (rule locks_bounded_reachable [OF assms(1)])
      (simp add: locks_bounded_def init_gate_def lock_of_def new_rate_limiter_def)
  moreover have "lockout_seconds (limiter g) = l"
    using gate_config_reachable [OF assms(1)] by (simp add: same_config_def init_gate_def new_rate_limiter_def)
  ultimately have "\<exists>rl. check (limiter ?g) u (clock ?g) = (Inr (), rl)"
    by (simp add: check_Inr_iff locks_bounded_def)
  then obtain rl where c: "check (limiter ?g) u (clock ?g) = (Inr (), rl)" ..
  have "gate_reachable k g ?g"
    by (rule gate_reachable.step [OF gate_reachable.start gate_step.tick [OF assms(2)]])
  then have "gate_reachable k g (admit_attempt ?g u rl)"
    by (rule gate_reachable.step) (rule gate_step.admit [OF c], use assms(3) in simp)
  then show ?thesis
    by (intro exI [of _ "admit_attempt ?g u rl"]) (simp add: admit_attempt_def)
qed

theorem lockout_is_temporary_witness:
  "\<exists>g'. gate_reachable 1 (init_gate 3 900 900) g' \<and> clock g' = 900 \<and> in_flight g' (lit ''u'') = 1"
  using lockout_is_temporary [OF gate_reachable.start, of 900 3 900 "lit ''u''" 1]
  by (simp add: init_gate_def)

end
