(* ===== verification/App_Answers.thy ===== *)
theory App_Answers
  imports App_Guards App_Audit Identity_Spec Gate
begin

text \<open>
  What the handlers answer and what they do to the limiter: the limiter moves only on a wrong
  password and on success, each run of a handler is a run of the gate machine, and the status of
  every outcome.
\<close>

section \<open>The limiter\<close>

definition ends :: "(exn + 'a \<Rightarrow> rate_limiter \<Rightarrow> bool) \<Rightarrow> 'a call \<Rightarrow> service \<Rightarrow> bool" where
  "ends P m sv \<longleftrightarrow> P (fst (m sv)) (sv_limiter (snd (m sv)))"

lemma ends_late:
  assumes "lm.keeps m" and "raises E m" and "\<And>e. E e \<Longrightarrow> P (Inl e) (sv_limiter sv)"
    and "\<And>v sv1. m sv = (Inr v, sv1) \<Longrightarrow> sv_limiter sv1 = sv_limiter sv \<Longrightarrow> ends P (f v) sv1"
  shows "ends P (andthen m f) sv"
proof (cases "m sv")
  case (Pair r sv1)
  then have same: "sv_limiter sv1 = sv_limiter sv" using lm_run [OF assms(1), of sv] by simp
  show ?thesis
  proof (cases r)
    case (Inl e)
    with Pair raisesD [OF assms(2)] have "E e" by simp
    with Inl Pair same assms(3) show ?thesis by (simp add: ends_def andthen_def)
  next
    case (Inr v)
    with Pair same assms(4) [of v sv1] show ?thesis by (simp add: ends_def andthen_def)
  qed
qed

lemma ends_step:
  assumes "raises E m" and "\<And>e. E e \<Longrightarrow> fst (m sv) = Inl e \<Longrightarrow> P (Inl e) (sv_limiter (snd (m sv)))"
    and "\<And>v. fst (m sv) = Inr v \<Longrightarrow> ends P (f v) (snd (m sv))"
  shows "ends P (andthen m f) sv"
  using assms(2,3) raisesD [OF assms(1)]
  by (cases "m sv"; cases "fst (m sv)") (auto simp: ends_def andthen_def)

lemma refused_run:
  "fst (refused su u j out r c d h sv) = Inl (HTTPException c d h)"
  "sv_limiter (snd (refused su u j out r c d h sv)) = sv_limiter sv"
  by (simp_all add: refused_def andthen_def audit_def on_world_def log_op_def throw_def)

lemma refused_pair:
  "refused su u j out r c d h sv = (q, sv1) \<Longrightarrow> q = Inl (HTTPException c d h) \<and> sv_limiter sv1 = sv_limiter sv"
  by (metis refused_run fst_conv snd_conv)

lemma issued_run:
  "fst (issued su u w j r v sv) = Inr v" "sv_limiter (snd (issued su u w j r v sv)) = sv_limiter sv"
  by (simp_all add: issued_def andthen_def audit_def on_world_def log_op_def ret_def)

lemma under_limit_run:
  assumes "under_limit x u su j r sv = (q, sv1)"
  shows "sv_limiter sv1 = snd (check (sv_limiter sv) u (t_check x))"
    and "q = Inr () \<longleftrightarrow> fst (check (sv_limiter sv) u (t_check x)) = Inr ()"
    and "q \<noteq> Inr () \<Longrightarrow> \<exists>d. q = Inl (HTTPException 429 (rate_limited_message d) [])"
proof -
  obtain p rl where c: "check (sv_limiter sv) u (t_check x) = (p, rl)"
    by (cases "check (sv_limiter sv) u (t_check x)")
  have p: "p = Inr () \<or> (\<exists>d. p = Inl (RateLimitedError d))"
    using c by (auto simp: check_def split: option.splits if_splits)
  note run = assms [unfolded under_limit_def catching_def limiter_check_def c]
  show "sv_limiter sv1 = snd (check (sv_limiter sv) u (t_check x))"
    and "q = Inr () \<longleftrightarrow> fst (check (sv_limiter sv) u (t_check x)) = Inr ()"
    and "q \<noteq> Inr () \<Longrightarrow> \<exists>d. q = Inl (HTTPException 429 (rate_limited_message d) [])"
    using p run by (auto simp: c dest!: refused_pair)
qed

lemma under_limit_ends:
  "sv_limiter (snd (under_limit x u su j r sv)) = snd (check (sv_limiter sv) u (t_check x))"
  "fst (under_limit x u su j r sv) = Inr v \<Longrightarrow> fst (check (sv_limiter sv) u (t_check x)) = Inr ()"
  using under_limit_run(1,2) [of x u su j r sv "fst (under_limit x u su j r sv)"
      "snd (under_limit x u su j r sv)"] by simp_all

section \<open>Which step gives the answer "bad password"\<close>

definition bad_password :: exn where
  "bad_password = HTTPException 400 (lit ''bad password'') []"

definition no_http :: "exn + 'a \<Rightarrow> bool" where
  "no_http r \<longleftrightarrow> (case r of Inl e \<Rightarrow> \<not> is_HTTPException e | Inr _ \<Rightarrow> True)"

lemma no_http_simps [simp]: "no_http (Inr v)" "no_http (Inl e) \<longleftrightarrow> \<not> is_HTTPException e"
  by (simp_all add: no_http_def)

lemma no_httpD: "no_http r \<Longrightarrow> r = Inl e \<Longrightarrow> \<not> is_HTTPException e"
  by simp

text \<open>PyJWT does not raise FastAPI's exceptions.\<close>

definition plain_jwt :: "jwt_lib \<Rightarrow> bool" where
  "plain_jwt jwt \<longleftrightarrow> (\<forall>t k pk args. no_http (unverified_kid jwt t) \<and> no_http (from_jwk jwt k)
     \<and> no_http (jwt_decode jwt t pk args))"

abbreviation other :: "exn \<Rightarrow> bool" where
  "other e \<equiv> e \<noteq> bad_password"

lemma bad_password_http [simp]: "is_HTTPException bad_password"
  by (simp add: bad_password_def)

lemma other_answers [simp]:
  "\<not> is_HTTPException e \<Longrightarrow> other e" "c \<noteq> 400 \<Longrightarrow> other (HTTPException c d h)"
  "HTTPException c (lit t) h = bad_password \<longleftrightarrow> c = 400 \<and> t = ''bad password'' \<and> h = []"
  by (auto simp: bad_password_def)

lemma raises_audited [raises_intro]:
  "E (HTTPException c d h) \<Longrightarrow> raises E (refused su u j out r c d h)"
  "raises E (issued su u w j r v)"
  by (simp_all add: raises_def refused_run issued_run)

lemma no_http_find_kid: "no_http (find_kid ks kid)"
  by (induction ks kid rule: find_kid.induct) (auto simp: no_http_def)

lemma no_http_select: "no_http (select_jwk ks kid)"
  by (auto simp: select_jwk_def no_http_find_kid [unfolded no_http_def] py_len_def no_http_def
      split: option.split json.split list.split)

text \<open>The answers a step before the minting operation can give; any exception that is not an
  \<open>HTTPException\<close> may pass.\<close>

definition step_error :: "settings \<Rightarrow> exn \<Rightarrow> bool" where
  "step_error s e \<longleftrightarrow> (case e of
     HTTPException c d h \<Rightarrow>
       (c = 401 \<and> (d = lit ''Not authenticated'' \<or> d = lit ''Invalid or expired token'')
         \<and> h = [(lit ''WWW-Authenticate'', lit ''Bearer'')])
       \<or> (c = 502 \<and> d = lit ''Unable to reach JWKS endpoint: '' @ broker_jwks_url s \<and> h = [])
       \<or> (c = 422 \<and> (d = lit ''invalid username'' \<or> d = lit ''invalid lifetime''
            \<or> d = lit ''invalid keytab_b64'' \<or> d = lit ''invalid ccache_b64'') \<and> h = [])
       \<or> (c = 429 \<and> (\<exists>r. d = rate_limited_message r) \<and> h = [])
   | _ \<Rightarrow> True)"

lemma step_error_plain [simp]: "\<not> is_HTTPException e \<Longrightarrow> step_error s e"
  by (cases e) (simp_all add: step_error_def)

lemma step_error_other: "step_error s e \<Longrightarrow> other e"
  by (auto simp: step_error_def bad_password_def)

lemma raises_verify_public [raises_intro]:
  assumes "plain_jwt jwt"
  shows "raises (step_error s) (verify_broker_token http jwt s n0 n1 t)"
proof -
  have jwks: "raises (step_error s) (get_jwks http s n0 n1)"
    by (auto simp: raises_def get_jwks_run jwks_answer_def py_len_def step_error_def
        split: option.split sum.split json.split)
  have tried: "step_error s e" if "verify_try jwt s t ks = Inl e" for ks e
  proof -
    from assms have p: "no_http (unverified_kid jwt t)" "no_http (from_jwk jwt k)"
      "no_http (jwt_decode jwt t pk args)" for k pk args by (simp_all add: plain_jwt_def)
    have "no_http (verify_try jwt s t ks)"
      by (auto simp: verify_try_def split: sum.split
          dest: p [THEN no_httpD] no_http_select [THEN no_httpD])
    with that show ?thesis by simp
  qed
  have refused: "raises (step_error s) (token_refused m)" for m
    unfolding token_refused_def by (intro raises_intro) (simp add: step_error_def)
  show ?thesis
    unfolding verify_broker_token_def
    by (intro raises_intro jwks refused) (erule tried)
qed

lemma raises_steps_public [raises_intro]:
  "plain_jwt (d_jwt x) \<Longrightarrow> raises (step_error s) (authenticate x s t u r)" "raises (step_error s) (claim c n)"
  "raises (step_error s) (valid_username_or v su j r)" "raises (step_error s) (valid_lifetimes_or l rn v su j r)"
  "raises (step_error s) (under_limit x v su j r)" "raises (step_error s) (password_buffer pw)"
  "raises (step_error s) (credential_buffers body su j r)" "raises (step_error s) (not_authenticated r)"
proof -
  show "raises (step_error s) (authenticate x s t u r)" if "plain_jwt (d_jwt x)"
    unfolding authenticate_def
    by (rule raises_catching [OF raises_verify_public [OF that]])
      (auto intro: raises_audited split: exn.splits)
  show "raises (step_error s) (under_limit x v su j r)"
    unfolding under_limit_def
  proof (rule raises_catching)
    show "raises (\<lambda>e. \<exists>d. e = RateLimitedError d) (limiter_check v (t_check x))"
      by (simp add: raises_def limiter_check_def check_def split: option.split prod.split)
  qed (auto intro!: raises_audited simp: step_error_def, blast)
  have new: "raises (step_error s) (new_bytearray bs)" for bs
    unfolding new_bytearray_def by (intro raises_intro)
  then show pw: "raises (step_error s) (password_buffer pw)" for pw
    unfolding password_buffer_def
    by (intro raises_intro new) (simp add: utf8_encode_def split: if_splits, clarsimp)
  show "raises (step_error s) (credential_buffers body su j r)"
    unfolding credential_buffers_def
    by (intro raises_intro pw new; ((rule step_error_plain, auto dest: b64decode_plain; fail) | simp add: step_error_def))
  show "raises (step_error s) (claim c n)" "raises (step_error s) (valid_username_or v su j r)"
    "raises (step_error s) (valid_lifetimes_or l rn v su j r)" "raises (step_error s) (not_authenticated r)"
    unfolding claim_def valid_username_or_def valid_lifetimes_or_def not_authenticated_def
    by (intro raises_intro; simp add: step_error_def)+
qed

lemma raises_other: "raises (step_error s) m \<Longrightarrow> raises other m"
  by (erule raises_weaken) (rule step_error_other)

lemmas raises_steps = raises_steps_public [THEN raises_other]

section \<open>The limiter after a password request\<close>

text \<open>What a password request leaves, given the limiter \<open>L\<close> it found and what \<open>check\<close> answers and leaves.\<close>

definition password_effect ::
    "pystr \<Rightarrow> rat \<Rightarrow> rate_limiter \<Rightarrow> (exn + unit) \<times> rate_limiter \<Rightarrow> exn + 'a \<Rightarrow> rate_limiter \<Rightarrow> bool" where
  "password_effect u t_answer L c r L' \<longleftrightarrow>
     (case r of
        Inr _ \<Rightarrow> fst c = Inr () \<and> L' = reset (snd c) u
      | Inl e \<Rightarrow> if e = bad_password then fst c = Inr () \<and> L' = record_failure (snd c) u t_answer
                 else L' = L \<or> L' = snd c)"

lemma password_effect_other [simp]:
  "other e \<Longrightarrow> password_effect u t L c (Inl e) L" "other e \<Longrightarrow> password_effect u t L c (Inl e) (snd c)"
  by (simp_all add: password_effect_def)

lemma answer_tail:
  "fst c = Inr () \<Longrightarrow> sv_limiter (snd (m sv)) = snd c \<Longrightarrow> (\<And>e. fst (m sv) = Inl e \<Longrightarrow> other e) \<Longrightarrow>
     ends (password_effect u t L c) (andthen m (\<lambda>v. andthen (limiter_reset u) (\<lambda>_. issued a b (p v) d rid (f v)))) sv"
  by (cases "m sv"; cases "fst (m sv)")
    (auto simp: password_effect_def ends_def limiter_reset_def andthen_def issued_run)

text \<open>How the \<open>except\<close> clauses answer: the wrong password is recorded, nothing else is.\<close>

definition answers_by :: "pystr \<Rightarrow> rat \<Rightarrow> (exn \<Rightarrow> 'a call option) \<Rightarrow> bool" where
  "answers_by u t h \<longleftrightarrow> (\<forall>e g. h e = Some g \<longrightarrow>
     (\<exists>su j r. g = andthen (limiter_record u t)
        (\<lambda>_. refused su (Some u) j ''denied'' r 400 (lit ''bad password'') []))
     \<or> (lm.keeps g \<and> raises other g))"

lemma answers_by_failed: "answers_by u (t_fail x) (mint_failed x u su j r)"
  "answers_by u (t_fail x) (keytab_failed x u su j r)"
  unfolding answers_by_def
  by (auto simp: mint_failed_def keytab_failed_def split: exn.splits
      intro!: keeps_intro raises_audited)

lemma password_tail:
  assumes h: "answers_by u t h" and raise: "raises (\<lambda>e. h e = None \<longrightarrow> other e) m"
    and adm: "fst c = Inr ()" and same: "sv_limiter sv = snd c"
  shows "ends (password_effect u t L c)
    (andthen (catching (on_world m) h) (\<lambda>v. andthen (limiter_reset u) (\<lambda>_. issued a b (p v) d rid (f v)))) sv"
proof -
  obtain q sv1 where m: "on_world m sv = (q, sv1)" by (cases "on_world m sv")
  then have L1: "sv_limiter sv1 = snd c" using lm_run [OF lift_keeps(3), of m sv] same by simp
  show ?thesis
  proof (cases "\<exists>e g. q = Inl e \<and> h e = Some g")
    case False
    then have "catching (on_world m) h sv = (q, sv1)"
      using m by (auto simp: catching_def split: sum.split option.split)
    moreover have "other e" if "q = Inl e" for e
      using False that m raisesD [OF raises_on_world [OF raise]] by auto
    ultimately show ?thesis using L1 adm by (intro answer_tail) auto
  next
    case True
    then obtain e g where e: "q = Inl e" "h e = Some g" by blast
    then have run: "catching (on_world m) h sv = g sv1" using m by (simp add: catching_def)
    obtain q2 sv2 where g: "g sv1 = (q2, sv2)" by (cases "g sv1")
    from h e(2) consider (bad) su j r where "g = andthen (limiter_record u t)
        (\<lambda>_. refused su (Some u) j ''denied'' r 400 (lit ''bad password'') [])"
      | (keeps) "lm.keeps g" "raises other g"
      unfolding answers_by_def by blast
    then show ?thesis
    proof cases
      case keeps
      from lm_run [OF keeps(1), of sv1] raisesD [OF keeps(2)] run g L1 adm
      show ?thesis by (intro answer_tail) auto
    next
      case bad
      with g L1 have "q2 = Inl bad_password \<and> sv_limiter sv2 = record_failure (snd c) u t"
        by (auto simp: andthen_def limiter_record_def bad_password_def dest!: refused_pair)
      with run g adm show ?thesis by (simp add: ends_def andthen_def password_effect_def)
    qed
  qed
qed

lemma raises_minting_other:
  assumes "plain_krb5 lib"
  shows "raises (\<lambda>e. h e = None \<longrightarrow> other e) (mint_ticket env lib s u p l r k)"
    and "raises (\<lambda>e. h e = None \<longrightarrow> other e) (mint_keytab env s u a)"
proof -
  note plain = minting_exn_plain [OF assms]
  show "raises (\<lambda>e. h e = None \<longrightarrow> other e) (mint_ticket env lib s u p l r k)"
    by (rule raises_weaken [OF minting_raises(1) [where lib = lib]]) (simp add: plain)
  show "raises (\<lambda>e. h e = None \<longrightarrow> other e) (mint_keytab env s u a)"
    by (rule raises_weaken [OF minting_raises(3) [where lib = lib]]) (simp add: plain)
qed

lemma not_authenticated_ends:
  "P (Inl (HTTPException 401 (lit ''Not authenticated'') [(lit ''WWW-Authenticate'', lit ''Bearer'')]))
     (sv_limiter sv) \<Longrightarrow> ends P (not_authenticated rid) sv"
  by (simp add: ends_def not_authenticated_def refused_run)

lemma mint_limiter_password:
  assumes pw: "rq_password body \<noteq> None" and plain: "plain_krb5 (d_krb5 x)" "plain_jwt (d_jwt x)"
  shows "ends (password_effect (rq_username body) (t_fail x) (sv_limiter sv)
      (check (sv_limiter sv) (rq_username body) (t_check x))) (mint x s req body) sv"
proof (cases "bearer req")
  case None
  then show ?thesis
    by (simp add: mint_def Let_def not_authenticated_ends)
next
  case (Some token)
  let ?u = "rq_username body" and ?L1 = "snd (check (sv_limiter sv) (rq_username body) (t_check x))"
  have ifs: "(if rq_password body \<noteq> None then m else n) = m" for m n :: "unit call"
    using pw by simp
  show ?thesis
    unfolding mint_def Let_def Some option.case ifs
  proof (rule ends_late [OF authenticate_keeps(2) raises_steps(1) [OF plain(2)]], simp,
      rule ends_late [OF claim_keeps(3) raises_steps(2)], simp,
      rule ends_late [OF validation_keeps(2) raises_steps(3)], simp,
      rule ends_late [OF validation_keeps(4) raises_steps(4)], simp, goal_cases)
    case (1 claims sv1 sub sv2 u1 sv3 u2 sv4)
    then have L: "sv_limiter sv4 = sv_limiter sv" by simp
    let ?lim = "under_limit x ?u sub (claim_or_none claims ''jti'') (str_or (x_request_id req) (d_uuid x))"
    have L1: "sv_limiter (snd (?lim sv4)) = ?L1"
      using L by (simp add: under_limit_ends)
    have adm: "fst (check (sv_limiter sv) ?u (t_check x)) = Inr ()" if "fst (?lim sv4) = Inr v" for v
      using under_limit_ends(2) [OF that] L by simp
    have L6: "sv_limiter (snd (credential_buffers body su j r (snd (?lim sv4)))) = ?L1" for su j r
      using lm_run [OF buffers_keep(8)] L1 by simp
    show ?case
    proof (rule ends_step [OF raises_steps(5)], goal_cases)
      case (1 e)
      then show ?case by (simp add: L1)
    next
      case (2 v)
      note adm = adm [OF this]
      show ?case
      proof (rule ends_step [OF raises_steps(7)], goal_cases)
        case (1 e)
        then show ?case by (simp add: L6)
      next
        case (2 bufs)
        show ?case
          unfolding split_beta
          by (rule password_tail [OF answers_by_failed(1) raises_minting_other(1) [OF plain(1)] adm L6])
      qed
    qed
  qed
qed

lemma keytab_limiter:
  assumes plain: "plain_krb5 (d_krb5 x)" "plain_jwt (d_jwt x)"
  shows "ends (password_effect (kr_username body) (t_fail x) (sv_limiter sv)
      (check (sv_limiter sv) (kr_username body) (t_check x))) (keytab_endpoint x s req body) sv"
proof (cases "bearer req")
  case None
  then show ?thesis
    by (simp add: keytab_endpoint_def Let_def not_authenticated_ends)
next
  case (Some token)
  let ?u = "kr_username body" and ?L1 = "snd (check (sv_limiter sv) (kr_username body) (t_check x))"
  show ?thesis
    unfolding keytab_endpoint_def Let_def Some option.case
  proof (rule ends_late [OF authenticate_keeps(2) raises_steps(1) [OF plain(2)]], simp,
      rule ends_late [OF claim_keeps(3) raises_steps(2)], simp,
      rule ends_late [OF validation_keeps(2) raises_steps(3)], simp, goal_cases)
    case (1 claims sv1 sub sv2 u1 sv3)
    then have L: "sv_limiter sv3 = sv_limiter sv" by simp
    let ?lim = "under_limit x ?u sub (claim_or_none claims ''jti'') (str_or (x_request_id req) (d_uuid x))"
    have L1: "sv_limiter (snd (?lim sv3)) = ?L1"
      using L by (simp add: under_limit_ends)
    have adm: "fst (check (sv_limiter sv) ?u (t_check x)) = Inr ()" if "fst (?lim sv3) = Inr v" for v
      using under_limit_ends(2) [OF that] L by simp
    have L5: "sv_limiter (snd (password_buffer pw (snd (?lim sv3)))) = ?L1" for pw
      using lm_run [OF buffers_keep(6)] L1 by simp
    show ?case
    proof (rule ends_step [OF raises_steps(5)], goal_cases)
      case (1 e)
      then show ?case by (simp add: L1)
    next
      case (2 v)
      note adm = adm [OF this]
      show ?case
      proof (rule ends_step [OF raises_steps(6)], goal_cases)
        case (1 e)
        then show ?case by (simp add: L5)
      next
        case (2 bufs)
        show ?case
          by (rule password_tail [OF answers_by_failed(2) raises_minting_other(2) [OF plain(1)] adm L5])
      qed
    qed
  qed
qed

lemma renew_limiter: "lm.keeps (renew x s req b)"
  unfolding renew_def Let_def
  by (intro keeps_intro) (auto dest: mint_failed_keeps(3))

lemma catching_raised_keeps:
  assumes "lm.keeps m" and "raises E m" and "\<And>e g. E e \<Longrightarrow> h e = Some g \<Longrightarrow> lm.keeps g"
  shows "lm.keeps (catching m h)"
  unfolding lm.keeps_def
proof
  fix sv
  obtain r sv1 where m: "m sv = (r, sv1)" by (cases "m sv")
  then have same: "same_limiter sv sv1" using assms(1) by (metis lm.keepsD)
  show "same_limiter sv (snd (catching m h sv))"
  proof (cases r)
    case (Inl e)
    show ?thesis
    proof (cases "h e")
      case (Some g)
      with Inl m assms(3) raisesD [OF assms(2)] have "lm.keeps g" by blast
      then have "same_limiter sv1 (snd (g sv1))" by (simp add: lm.keeps_def)
      with Some Inl m same show ?thesis by (simp add: catching_def same_limiter_def)
    qed (use Inl m same in \<open>simp add: catching_def\<close>)
  qed (use m same in \<open>simp add: catching_def\<close>)
qed

lemma raises_any: "raises (\<lambda>_. True) m"
  by (simp add: raises_def split: sum.split)

lemma mint_ticket_keytab_keeps:
  assumes "plain_krb5 (d_krb5 x)"
  shows "lm.keeps (catching (on_world (mint_ticket (d_env x) (d_krb5 x) s u None l r (Some k)))
    (mint_failed x u su j rid))"
proof (rule catching_raised_keeps [OF lift_keeps(3) raises_on_world [OF raises_mint_ticket]])
  show "base_exns (\<lambda>e. \<not> is_BadPasswordError e)" by (simp add: base_exns_def)
  show "cache_exns (d_krb5 x) (\<lambda>e. \<not> is_BadPasswordError e)"
    using assms by (auto simp: plain_krb5_def cache_exns_def dest: typed_BadPassword split: sum.splits)
  show "\<not> is_BadPasswordError e"
    if "(if Some k \<noteq> None then classify_keytab_stderr else classify_password_stderr) t = Some e" for t e
    using that by (auto simp: classify_keytab_stderr_def split: if_splits)
  show "lm.keeps g" if "\<not> is_BadPasswordError e" "mint_failed x u su j rid e = Some g" for e g
    using that by (auto simp: mint_failed_def split: exn.splits intro!: keeps_intro)
qed

lemma mint_limiter_keytab:
  assumes kt: "rq_password body = None" and plain: "plain_krb5 (d_krb5 x)"
  shows "ends (\<lambda>r L'. L' = sv_limiter sv) (mint x s req body) sv"
proof (cases "bearer req")
  case None
  then show ?thesis
    by (simp add: mint_def Let_def not_authenticated_ends)
next
  case (Some token)
  let ?u = "rq_username body"
  have ifs: "(if rq_password body \<noteq> None then m else n) = n" for m n :: "unit call"
    using kt by simp
  show ?thesis
    unfolding mint_def Let_def Some option.case ifs
  proof (rule ends_late [OF authenticate_keeps(2) raises_any], simp,
      rule ends_late [OF claim_keeps(3) raises_any], simp,
      rule ends_late [OF validation_keeps(2) raises_any], simp,
      rule ends_late [OF validation_keeps(4) raises_any], simp,
      rule ends_late [OF lm.keeps_ret raises_any], simp,
      rule ends_late [OF buffers_keep(8) raises_any], simp, goal_cases)
    case (1 claims sv1 sub sv2 u1 sv3 u2 sv4 u3 sv5 bufs sv6)
    obtain k where bufs: "bufs = (None, Some k)"
      using credential_buffers_Inr [OF 1(11)] kt by (metis option.distinct(1))
    have "sv_limiter sv6 = sv_limiter sv" using 1 by simp
    moreover have "lm.keeps (andthen (catching (on_world (mint_ticket (d_env x) (d_krb5 x) s ?u None l r (Some k)))
        (mint_failed x ?u su j rid)) (\<lambda>minted. andthen (ret ()) (\<lambda>_. issued a b (c minted) d e (f minted))))"
      for l r su j rid a b c d e and f :: "minted_ticket \<Rightarrow> mint_response"
      by (intro lm.keeps_andthen mint_ticket_keytab_keeps [OF plain] keeps_intro)
    ultimately show ?case
      unfolding bufs prod.case by (simp add: ends_def lm_run)
  qed
qed

lemma plain_jwt_sample [simp]: "plain_jwt (d_jwt (sample_deps ks env lib))"
  by (simp add: sample_defs plain_jwt_def no_http_def)

lemma limiter_moves:
  assumes "plain_krb5 (d_krb5 x)" and "plain_jwt (d_jwt x)"
  shows "if rq_password body = None then sv_limiter (snd (mint x s req body sv)) = sv_limiter sv
      else password_effect (rq_username body) (t_fail x) (sv_limiter sv)
             (check (sv_limiter sv) (rq_username body) (t_check x))
             (fst (mint x s req body sv)) (sv_limiter (snd (mint x s req body sv)))"
    and "password_effect (kr_username kbody) (t_fail x) (sv_limiter sv)
             (check (sv_limiter sv) (kr_username kbody) (t_check x))
             (fst (keytab_endpoint x s req kbody sv)) (sv_limiter (snd (keytab_endpoint x s req kbody sv)))"
    and "sv_limiter (snd (renew x s req b64 sv)) = sv_limiter sv"
  using mint_limiter_password [OF _ assms, of body sv s req] mint_limiter_keytab [OF _ assms(1), of body sv s req]
    keytab_limiter [OF assms, of kbody sv s req] lm_run [OF renew_limiter]
  by (auto simp: ends_def)

text \<open>
  C15: the limiter moves only on confirmed outcomes. A password request resets the username exactly
  when it succeeds and records a failure exactly when it answers "bad password"; otherwise it leaves
  what \<open>check\<close> left. A keytab-mode mint and a renewal never touch it.
\<close>

theorem limiter_moves_only_on_answers:
  assumes "plain_krb5 (d_krb5 x)" and "plain_jwt (d_jwt x)"
  shows "(if rq_password body = None then sv_limiter (snd (mint x s req body sv)) = sv_limiter sv
      else password_effect (rq_username body) (t_fail x) (sv_limiter sv)
             (check (sv_limiter sv) (rq_username body) (t_check x))
             (fst (mint x s req body sv)) (sv_limiter (snd (mint x s req body sv))))
    \<and> password_effect (kr_username kbody) (t_fail x) (sv_limiter sv)
             (check (sv_limiter sv) (kr_username kbody) (t_check x))
             (fst (keytab_endpoint x s req kbody sv)) (sv_limiter (snd (keytab_endpoint x s req kbody sv)))
    \<and> sv_limiter (snd (renew x s req b64 sv)) = sv_limiter sv"
  using limiter_moves [OF assms] by blast

theorem limiter_moves_only_on_answers_witness:
  "let x = sample_deps sample_jwks (kinit_writes [5, 4]) (failing_lib (Krb5Error (lit ''bad'')))
   in sv_limiter (snd (renew x default_settings sample_request (lit ''BQQ='') sample_service))
        = sv_limiter sample_service"
  unfolding Let_def
  using limiter_moves_only_on_answers [OF plain_sample plain_jwt_sample, where s = default_settings
      and req = sample_request and sv = sample_service] by blast

end
