(* ===== verification/App_Replies.thy ===== *)
theory App_Replies
  imports App_Answers
begin

text \<open>
  The reply of every request as a table: \<open>mint_refusal\<close>, \<open>renew_refused\<close> and \<open>keytab_refusal\<close> give
  the answer of a request that starts nothing, from the request, the token, the limiter and the
  clock alone; the \<open>_reply\<close> functions turn the outcome of the minting operation into the answer.
\<close>

section \<open>What the steps leave alone\<close>

definition same_files :: "service \<Rightarrow> service \<Rightarrow> bool" where
  "same_files sv sv' \<longleftrightarrow> files (sv_world sv') = files (sv_world sv)"

interpretation fl: state_order same_files
  by unfold_locales (simp_all add: same_files_def)

lemma fl_prims [keeps_intro]:
  "fl.keeps (on_world (log_op l n d))" "fl.keeps (cache_put url en)" "fl.keeps (limiter_check u t)"
  "fl.keeps (new_bytearray bs)"
  by (simp_all add: fl.keeps_def same_files_def on_world_def log_op_def cache_put_def limiter_check_def
      new_bytearray_def alloc_def andthen_def split: prod.split)

lemma fl_fetch [keeps_intro]: "fl.keeps (on_world (fetch_jwks http url))"
  by (simp add: fl.keeps_def same_files_def on_world_def fetch_jwks_run log_op_def split: sum.split)

lemma fl_steps [keeps_intro]:
  "fl.keeps (get_jwks http s now0 now1)" "fl.keeps (refused su u j out r c d h)"
  "fl.keeps (authenticate x s t w r)" "fl.keeps (claim cl n)" "fl.keeps (valid_username_or v su j r)"
  "fl.keeps (valid_lifetimes_or l rn v su j r)" "fl.keeps (under_limit x v su j r)"
proof -
  have stale: "fl.keeps g" if "serve_stale url entry e = Some g" for url entry e g
    by (rule serve_stale_cases [OF that], simp, intro keeps_intro)
  show jwks: "fl.keeps (get_jwks http s now0 now1)" for http s now0 now1
    unfolding get_jwks_def get_jwks_locked_def store_jwks_def Let_def
    by (intro keeps_intro; erule stale)
  show refused: "fl.keeps (refused su u j out r c d h)" for su u j out r c d h
    unfolding refused_def audit_def by (intro keeps_intro)
  have "fl.keeps (verify_broker_token http jwt s n0 n1 t)" for http jwt n0 n1
    unfolding verify_broker_token_def token_refused_def by (intro keeps_intro jwks)
  then show "fl.keeps (authenticate x s t w r)"
    unfolding authenticate_def by (intro keeps_intro; auto simp: refused split: exn.splits)
  show "fl.keeps (claim cl n)" "fl.keeps (valid_username_or v su j r)"
    "fl.keeps (valid_lifetimes_or l rn v su j r)"
    unfolding claim_def valid_username_or_def valid_lifetimes_or_def
    by (intro keeps_intro refused)+
  show "fl.keeps (under_limit x v su j r)"
    unfolding under_limit_def by (intro keeps_intro; auto simp: refused split: exn.splits)
qed

lemma fl_run: "fl.keeps m \<Longrightarrow> files (sv_world (snd (m sv))) = files (sv_world sv)"
  by (simp add: fl.keeps_def same_files_def)

lemmas step_frames =
  fl_run [OF fl_steps(3)] fl_run [OF fl_steps(4)] fl_run [OF fl_steps(5)] fl_run [OF fl_steps(6)]
  fl_run [OF fl_steps(7)]
  lm_run [OF authenticate_keeps(2)] lm_run [OF claim_keeps(3)] lm_run [OF validation_keeps(2)]
  lm_run [OF validation_keeps(4)]

section \<open>What the steps answer\<close>

lemma fst_authenticate:
  "fst (authenticate x s t u r sv) =
     fst (verify_broker_token (d_http x) (d_jwt x) s (t_jwks x) (t_jwks_locked x) t sv)"
  by (cases "verify_broker_token (d_http x) (d_jwt x) s (t_jwks x) (t_jwks_locked x) t sv")
    (auto simp: authenticate_def catching_def refused_run split: sum.split option.split exn.splits)

lemma fst_claim:
  "fst (claim c n sv) =
     (case map_of c (lit n) of None \<Rightarrow> Inl (KeyErr ([39] @ lit n @ [39])) | Some v \<Rightarrow> Inr v)"
  by (simp add: claim_def throw_def ret_def split: option.split)

lemma fst_valid_username:
  "fst (valid_username_or u su j r sv) =
     (if validate_username u = Inr () then Inr () else Inl (HTTPException 422 (lit ''invalid username'') []))"
  by (auto simp: valid_username_or_def ret_def refused_run split: sum.split)

lemma fst_valid_lifetimes:
  "fst (valid_lifetimes_or l rn u su j r sv) =
     (if validate_lifetime l = Inr () \<and> validate_lifetime rn = Inr () then Inr ()
      else Inl (HTTPException 422 (lit ''invalid lifetime'') []))"
  by (auto simp: valid_lifetimes_or_def ret_def refused_run split: sum.split)

lemma fst_under_limit:
  "fst (under_limit x u su j r sv) =
     (case fst (check (sv_limiter sv) u (t_check x)) of
        Inr _ \<Rightarrow> Inr () | Inl e \<Rightarrow> Inl (HTTPException 429 (exn_str e) []))"
  by (auto simp: under_limit_def catching_def limiter_check_def check_def refused_run
      split: option.split prod.split)

text \<open>The bytes of the credential, or the answer to a keytab that is not base64.\<close>

definition credential_bytes :: "mint_request \<Rightarrow> exn + bytes" where
  "credential_bytes body =
     (case rq_password body of
        Some pw \<Rightarrow> utf8_encode pw
      | None \<Rightarrow>
          (case rq_keytab_b64 body of
             None \<Rightarrow> Inl (OtherExn (lit ''AssertionError'') [])
           | Some b64 \<Rightarrow> map_sum (\<lambda>_. HTTPException 422 (lit ''invalid keytab_b64'') []) id (b64decode_validate b64)))"

lemma new_bytearray_run:
  "new_bytearray bs sv = (Inr (Suc (length (heap (sv_world sv)))),
     sv\<lparr>sv_world := (sv_world sv)\<lparr>heap := heap (sv_world sv) @ [Bytes bs, ByteArray bs]\<rparr>\<rparr>)"
  by (simp add: new_bytearray_def on_world_def andthen_def alloc_def)

lemma password_buffer_run:
  "password_buffer pw sv =
     (case utf8_encode pw of Inl e \<Rightarrow> (Inl e, sv) | Inr bs \<Rightarrow> new_bytearray bs sv)"
  by (simp add: password_buffer_def throw_def split: sum.split)

lemma credential_buffers_run:
  "fst (credential_buffers body su j r sv) =
     (case credential_bytes body of
        Inl e \<Rightarrow> Inl e
      | Inr bs \<Rightarrow>
          let a = Suc (length (heap (sv_world sv)))
          in Inr (if rq_password body = None then (None, Some a) else (Some a, None)))"
  "credential_bytes body = Inr bs \<Longrightarrow>
     sv_world (snd (credential_buffers body su j r sv)) =
       (sv_world sv)\<lparr>heap := heap (sv_world sv) @ [Bytes bs, ByteArray bs]\<rparr>"
  by (auto simp: credential_buffers_def credential_bytes_def password_buffer_run new_bytearray_run
      andthen_def ret_def throw_def refused_run b64decode_error Let_def
      split: option.splits sum.splits)

lemma fst_andthen:
  "fst (andthen m f sv) = (case fst (m sv) of Inl e \<Rightarrow> Inl e | Inr v \<Rightarrow> fst (f v (snd (m sv))))"
  by (simp add: andthen_def split: prod.split sum.split)

lemma fst_catching:
  "fst (catching m h sv) =
     (case fst (m sv) of
        Inr v \<Rightarrow> Inr v
      | Inl e \<Rightarrow> (case h e of None \<Rightarrow> Inl e | Some g \<Rightarrow> fst (g (snd (m sv)))))"
  by (simp add: catching_def split: prod.split sum.split option.split)

lemma fst_on_world: "fst (on_world m sv) = fst (m (sv_world sv))"
  by (simp add: on_world_def split: prod.split)

lemma fst_record_refused:
  "fst (andthen (limiter_record v t) (\<lambda>_. refused su u j out r c d h) sv) = Inl (HTTPException c d h)"
  by (simp add: andthen_def limiter_record_def refused_run)

section \<open>POST /v1/mint\<close>

definition unauthenticated :: exn where
  "unauthenticated = HTTPException 401 (lit ''Not authenticated'') [(lit ''WWW-Authenticate'', lit ''Bearer'')]"

text \<open>The token step, which the three endpoints share: the \<open>sub\<close> claim or the exception.\<close>

definition token_subject :: "deps \<Rightarrow> settings \<Rightarrow> request \<Rightarrow> service \<Rightarrow> exn + json" where
  "token_subject x s req sv =
     (case bearer req of None \<Rightarrow> Inl unauthenticated | Some token \<Rightarrow>
      case fst (verify_broker_token (d_http x) (d_jwt x) s (t_jwks x) (t_jwks_locked x) token sv) of
        Inl e \<Rightarrow> Inl e
      | Inr claims \<Rightarrow>
          (case map_of claims (lit ''sub'') of
             None \<Rightarrow> Inl (KeyErr ([39] @ lit ''sub'' @ [39])) | Some subject \<Rightarrow> Inr subject))"

definition lifetime_of :: "settings \<Rightarrow> mint_request \<Rightarrow> pystr" where
  "lifetime_of s body = str_or (rq_lifetime body) (default_lifetime s)"

definition renewable_of :: "settings \<Rightarrow> mint_request \<Rightarrow> pystr" where
  "renewable_of s body = str_or (rq_renewable_lifetime body) (default_renewable_lifetime s)"

definition mint_refusal :: "deps \<Rightarrow> settings \<Rightarrow> request \<Rightarrow> mint_request \<Rightarrow> service \<Rightarrow> exn option" where
  "mint_refusal x s req body sv =
     (case token_subject x s req sv of Inl e \<Rightarrow> Some e | Inr _ \<Rightarrow>
      if validate_username (rq_username body) \<noteq> Inr () then Some (HTTPException 422 (lit ''invalid username'') [])
      else if validate_lifetime (lifetime_of s body) \<noteq> Inr () \<or> validate_lifetime (renewable_of s body) \<noteq> Inr ()
        then Some (HTTPException 422 (lit ''invalid lifetime'') [])
      else case (if rq_password body = None then Inr ()
                 else fst (check (sv_limiter sv) (rq_username body) (t_check x))) of
        Inl e \<Rightarrow> Some (HTTPException 429 (exn_str e) [])
      | Inr _ \<Rightarrow> (case credential_bytes body of Inl e \<Rightarrow> Some e | Inr _ \<Rightarrow> None))"

fun mint_answer_of :: "exn \<Rightarrow> exn" where
  "mint_answer_of (BadPasswordError _) = HTTPException 400 (lit ''bad password'') []"
| "mint_answer_of (BadKeytabError _) = HTTPException 400 (lit ''bad keytab'') []"
| "mint_answer_of (UnknownPrincipalError _) = HTTPException 400 (lit ''unknown principal'') []"
| "mint_answer_of (AccountUnusableError m) = HTTPException 403 m []"
| "mint_answer_of (MintingError _) = HTTPException 502 (lit ''Ticket minting failed.'') []"
| "mint_answer_of e = e"

definition mint_reply :: "exn + minted_ticket \<Rightarrow> exn + mint_response" where
  "mint_reply r = map_sum mint_answer_of mint_response_of r"

lemma mint_failed_answer:
  "mint_failed x u su j r e = None \<Longrightarrow> mint_answer_of e = e"
  "mint_failed x u su j r e = Some g \<Longrightarrow> fst (g sv) = Inl (mint_answer_of e)"
  by (auto simp: mint_failed_def fst_record_refused refused_run split: exn.splits)

definition mint_finish ::
    "deps \<Rightarrow> pystr \<Rightarrow> json \<Rightarrow> json \<Rightarrow> pystr \<Rightarrow> bool \<Rightarrow> minted_ticket op \<Rightarrow> mint_response call" where
  "mint_finish x u su j r b m =
     andthen (catching (on_world m) (mint_failed x u su j r)) (\<lambda>minted.
     andthen (if b then limiter_reset u else ret ()) (\<lambda>_.
     issued su (Some u) (mt_principal minted) j r (mint_response_of minted)))"

lemma fst_mint_finish: "fst (mint_finish x u su j r b m sv) = mint_reply (fst (m (sv_world sv)))"
proof (cases "fst (m (sv_world sv))")
  case (Inl e)
  then show ?thesis
    by (cases "mint_failed x u su j r e :: minted_ticket call option")
      (simp_all add: mint_finish_def fst_andthen fst_catching fst_on_world mint_reply_def mint_failed_answer)
next
  case (Inr t)
  then show ?thesis
    by (simp add: mint_finish_def fst_andthen fst_catching fst_on_world mint_reply_def issued_run
        limiter_reset_def ret_def)
qed

lemmas step_answers = fst_andthen fst_authenticate fst_claim fst_valid_username fst_valid_lifetimes
  fst_under_limit step_frames

lemma fst_not_authenticated: "fst (not_authenticated r sv) = Inl unauthenticated"
  by (simp add: not_authenticated_def refused_run unauthenticated_def)

lemma token_subject_Inr:
  assumes "token_subject x s req sv = Inr su"
  obtains token claims where "bearer req = Some token"
    and "fst (verify_broker_token (d_http x) (d_jwt x) s (t_jwks x) (t_jwks_locked x) token sv) = Inr claims"
    and "map_of claims (lit ''sub'') = Some su"
  using assms by (auto simp: token_subject_def split: option.splits sum.splits)

lemma token_Inl:
  assumes "token_subject x s req sv = Inl e"
  shows "fst (mint x s req body sv) = Inl e" "fst (renew x s req b64 sv) = Inl e"
    "fst (keytab_endpoint x s req kbody sv) = Inl e"
  using assms
  by (auto simp: mint_def renew_def keytab_endpoint_def Let_def token_subject_def fst_andthen
      fst_authenticate fst_claim fst_not_authenticated split: option.splits sum.splits)

lemma mint_authenticated:
  assumes "bearer req = Some token"
  shows "mint x s req body =
    (let rid = str_or (x_request_id req) (d_uuid x); u = rq_username body
     in andthen (authenticate x s token (Some u) rid) (\<lambda>claims.
        andthen (claim claims ''sub'') (\<lambda>su.
        let j = claim_or_none claims ''jti'' in
        andthen (valid_username_or u su j rid) (\<lambda>_.
        andthen (valid_lifetimes_or (lifetime_of s body) (renewable_of s body) u su j rid) (\<lambda>_.
        andthen (if rq_password body \<noteq> None then under_limit x u su j rid else ret ()) (\<lambda>_.
        andthen (credential_buffers body su j rid) (\<lambda>(p, k).
        mint_finish x u su j rid (rq_password body \<noteq> None)
          (mint_ticket (d_env x) (d_krb5 x) s u p (lifetime_of s body) (renewable_of s body) k))))))))"
  using assms by (simp add: mint_def Let_def lifetime_of_def renewable_of_def mint_finish_def)

lemma mint_replies:
  "case mint_refusal x s req body sv of
     Some e \<Rightarrow> fst (mint x s req body sv) = Inl e
   | None \<Rightarrow> \<exists>a w. fst (mint x s req body sv) = mint_reply (fst (mint_ticket (d_env x) (d_krb5 x) s
         (rq_username body) (if rq_password body = None then None else Some a)
         (lifetime_of s body) (renewable_of s body) (if rq_password body = None then Some a else None) w))
       \<and> files w = files (sv_world sv) \<and> credential_bytes body = Inr (raw (heap w ! a))"
proof (cases "token_subject x s req sv")
  case (Inl e)
  then show ?thesis by (simp add: mint_refusal_def token_Inl(1))
next
  case (Inr su)
  then obtain token claims where t: "bearer req = Some token"
    "fst (verify_broker_token (d_http x) (d_jwt x) s (t_jwks x) (t_jwks_locked x) token sv) = Inr claims"
    "map_of claims (lit ''sub'') = Some su"
    by (rule token_subject_Inr)
  note start = mint_authenticated [OF t(1)] Let_def t(2,3) step_answers ret_def
  show ?thesis
  proof (cases "mint_refusal x s req body sv")
    case (Some e)
    then show ?thesis
      by (auto simp: start mint_refusal_def Inr credential_buffers_run(1) split: sum.splits if_splits)
  next
    case None
    then obtain bs where bs: "credential_bytes body = Inr bs"
      and ok: "validate_username (rq_username body) = Inr ()" "validate_lifetime (lifetime_of s body) = Inr ()"
        "validate_lifetime (renewable_of s body) = Inr ()"
        "rq_password body \<noteq> None \<Longrightarrow> fst (check (sv_limiter sv) (rq_username body) (t_check x)) = Inr ()"
      by (auto simp: mint_refusal_def Inr split: sum.splits if_splits)
    show ?thesis
      unfolding None option.case
    proof (cases "rq_password body")
      case pw: None
      show "\<exists>a w. fst (mint x s req body sv) = mint_reply (fst (mint_ticket (d_env x) (d_krb5 x) s
         (rq_username body) (if rq_password body = None then None else Some a)
         (lifetime_of s body) (renewable_of s body) (if rq_password body = None then Some a else None) w))
       \<and> files w = files (sv_world sv) \<and> credential_bytes body = Inr (raw (heap w ! a))"
        by (simp add: start ok pw bs credential_buffers_run fst_mint_finish)
          (intro exI conjI, rule refl, simp_all add: step_frames nth_append)
    next
      case pw: (Some p)
      show "\<exists>a w. fst (mint x s req body sv) = mint_reply (fst (mint_ticket (d_env x) (d_krb5 x) s
         (rq_username body) (if rq_password body = None then None else Some a)
         (lifetime_of s body) (renewable_of s body) (if rq_password body = None then Some a else None) w))
       \<and> files w = files (sv_world sv) \<and> credential_bytes body = Inr (raw (heap w ! a))"
        by (simp add: start ok pw bs credential_buffers_run fst_mint_finish)
          (intro exI conjI, rule refl, simp_all add: step_frames nth_append)
    qed
  qed
qed

text \<open>
  C3: the answer of \<open>/v1/mint\<close>, on every path. A request that fails a check gets the answer of the
  first one that fails (token 401 or 502, username 422, lifetimes 422, limiter 429, keytab 422);
  any other gets what \<open>mint_ticket\<close> returns or raises on its credential, through the table
  \<open>mint_reply\<close>.
\<close>

theorem mint_replies_exactly:
  "case mint_refusal x s req body sv of
     Some e \<Rightarrow> fst (mint x s req body sv) = Inl e
   | None \<Rightarrow> \<exists>a w. fst (mint x s req body sv) = mint_reply (fst (mint_ticket (d_env x) (d_krb5 x) s
         (rq_username body) (if rq_password body = None then None else Some a)
         (lifetime_of s body) (renewable_of s body) (if rq_password body = None then Some a else None) w))
       \<and> files w = files (sv_world sv) \<and> credential_bytes body = Inr (raw (heap w ! a))"
  by (rule mint_replies)

section \<open>POST /v1/renew and /v1/keytab\<close>

definition renew_refused :: "deps \<Rightarrow> settings \<Rightarrow> request \<Rightarrow> pystr \<Rightarrow> service \<Rightarrow> exn option" where
  "renew_refused x s req b64 sv =
     (case token_subject x s req sv of Inl e \<Rightarrow> Some e | Inr _ \<Rightarrow>
      case b64decode_validate b64 of
        Inl _ \<Rightarrow> Some (HTTPException 422 (lit ''invalid ccache_b64'') []) | Inr _ \<Rightarrow> None)"

fun renew_answer_of :: "exn \<Rightarrow> exn" where
  "renew_answer_of (CcacheParseError _) = HTTPException 422 (lit ''invalid ccache'') []"
| "renew_answer_of (TicketExpiredError m) = HTTPException 400 m []"
| "renew_answer_of (MintingError _) = HTTPException 502 (lit ''Ticket renewal failed.'') []"
| "renew_answer_of e = e"

definition renew_reply :: "exn + minted_ticket \<Rightarrow> exn + mint_response" where
  "renew_reply r = map_sum renew_answer_of mint_response_of r"

definition keytab_refusal :: "deps \<Rightarrow> settings \<Rightarrow> request \<Rightarrow> keytab_request \<Rightarrow> service \<Rightarrow> exn option" where
  "keytab_refusal x s req body sv =
     (case token_subject x s req sv of Inl e \<Rightarrow> Some e | Inr _ \<Rightarrow>
      if validate_username (kr_username body) \<noteq> Inr () then Some (HTTPException 422 (lit ''invalid username'') [])
      else case fst (check (sv_limiter sv) (kr_username body) (t_check x)) of
        Inl e \<Rightarrow> Some (HTTPException 429 (exn_str e) [])
      | Inr _ \<Rightarrow> (case utf8_encode (kr_password body) of Inl e \<Rightarrow> Some e | Inr _ \<Rightarrow> None))"

fun keytab_answer_of :: "exn \<Rightarrow> exn" where
  "keytab_answer_of (BadPasswordError _) = HTTPException 400 (lit ''bad password'') []"
| "keytab_answer_of (MintingError _) = HTTPException 502 (lit ''Keytab generation failed.'') []"
| "keytab_answer_of e = e"

definition keytab_reply :: "settings \<Rightarrow> pystr \<Rightarrow> exn + bytes \<Rightarrow> exn + keytab_response" where
  "keytab_reply s u r = map_sum keytab_answer_of (\<lambda>bs. \<lparr>ks_keytab_b64 = b64encode bs,
     ks_principal = u @ lit ''@'' @ default_realm s\<rparr>) r"

definition renew_finish :: "json \<Rightarrow> json \<Rightarrow> pystr \<Rightarrow> minted_ticket op \<Rightarrow> mint_response call" where
  "renew_finish su j r m =
     andthen (catching (on_world m) (renew_refusal su j r)) (\<lambda>minted.
     issued su None (mt_principal minted) j r (mint_response_of minted))"

definition keytab_finish ::
    "deps \<Rightarrow> settings \<Rightarrow> pystr \<Rightarrow> json \<Rightarrow> json \<Rightarrow> pystr \<Rightarrow> bytes op \<Rightarrow> keytab_response call" where
  "keytab_finish x s u su j r m =
     andthen (catching (on_world m) (keytab_failed x u su j r)) (\<lambda>keytab_bytes.
     andthen (limiter_reset u) (\<lambda>_.
     issued su (Some u) (u @ lit ''@'' @ default_realm s) j r
       \<lparr>ks_keytab_b64 = b64encode keytab_bytes, ks_principal = u @ lit ''@'' @ default_realm s\<rparr>))"

lemma fst_caught:
  assumes "\<And>e. h e = None \<Longrightarrow> q e = e" and "\<And>e g sv. h e = Some g \<Longrightarrow> fst (g sv) = Inl (q e)"
  shows "fst (catching (on_world m) h sv) = map_sum q id (fst (m (sv_world sv)))"
  using assms by (cases "fst (m (sv_world sv))"; cases "h (projl (fst (m (sv_world sv))))")
    (auto simp: fst_catching fst_on_world)

lemma fst_renew_finish: "fst (renew_finish su j r m sv) = renew_reply (fst (m (sv_world sv)))"
proof -
  have "fst (catching (on_world m) (renew_refusal su j r) sv) = map_sum renew_answer_of id (fst (m (sv_world sv)))"
    by (rule fst_caught) (auto simp: renew_refusal_def refused_run split: exn.splits)
  then show ?thesis
    by (cases "fst (m (sv_world sv))") (simp_all add: renew_finish_def fst_andthen renew_reply_def issued_run)
qed

lemma fst_keytab_finish: "fst (keytab_finish x s u su j r m sv) = keytab_reply s u (fst (m (sv_world sv)))"
proof -
  have "fst (catching (on_world m) (keytab_failed x u su j r) sv) = map_sum keytab_answer_of id (fst (m (sv_world sv)))"
    by (rule fst_caught) (auto simp: keytab_failed_def refused_run fst_record_refused split: exn.splits)
  then show ?thesis
    by (cases "fst (m (sv_world sv))")
      (simp_all add: keytab_finish_def fst_andthen keytab_reply_def issued_run limiter_reset_def)
qed

lemma decode_step:
  "fst ((case b64decode_validate b of Inr bs \<Rightarrow> ret bs
     | Inl e \<Rightarrow> if is_ValueError e then refused su u j out r 422 (lit ''invalid ccache_b64'') [] else throw e) sv)
   = map_sum (\<lambda>_. HTTPException 422 (lit ''invalid ccache_b64'') []) id (b64decode_validate b)"
  by (simp add: ret_def refused_run b64decode_error split: sum.split)

lemma renew_replies:
  "case renew_refused x s req b64 sv of
     Some e \<Rightarrow> fst (renew x s req b64 sv) = Inl e
   | None \<Rightarrow> \<exists>bs w. fst (renew x s req b64 sv) = renew_reply (fst (renew_ticket (d_env x) (d_krb5 x) s bs w))
       \<and> files w = files (sv_world sv) \<and> b64decode_validate b64 = Inr bs"
proof (cases "token_subject x s req sv")
  case (Inl e)
  then show ?thesis by (simp add: renew_refused_def token_Inl(2))
next
  case (Inr su)
  then obtain token claims where t: "bearer req = Some token"
    "fst (verify_broker_token (d_http x) (d_jwt x) s (t_jwks x) (t_jwks_locked x) token sv) = Inr claims"
    "map_of claims (lit ''sub'') = Some su"
    by (rule token_subject_Inr)
  have run: "renew x s req b64 = (let rid = str_or (x_request_id req) (d_uuid x) in
      andthen (authenticate x s token None rid) (\<lambda>claims.
      andthen (claim claims ''sub'') (\<lambda>su.
      let j = claim_or_none claims ''jti'' in
      andthen (case b64decode_validate b64 of
                 Inr bs \<Rightarrow> ret bs
               | Inl e \<Rightarrow> if is_ValueError e then refused su None j ''denied'' rid 422 (lit ''invalid ccache_b64'') []
                         else throw e) (\<lambda>bs.
      renew_finish su j rid (renew_ticket (d_env x) (d_krb5 x) s bs)))))"
    by (simp add: renew_def Let_def t(1) renew_finish_def)
  show ?thesis
  proof (cases "b64decode_validate b64")
    case (Inl e)
    with Inr show ?thesis
      by (simp add: renew_refused_def run Let_def t(2,3) step_answers decode_step refused_run b64decode_error)
  next
    case bs: (Inr bs)
    have none: "renew_refused x s req b64 sv = None" by (simp add: renew_refused_def Inr bs)
    show ?thesis
      unfolding none option.case
      by (simp add: run Let_def t(2,3) step_answers bs ret_def fst_renew_finish)
        (intro exI conjI, rule refl, simp_all add: step_frames)
  qed
qed

lemma keytab_replies:
  "case keytab_refusal x s req body sv of
     Some e \<Rightarrow> fst (keytab_endpoint x s req body sv) = Inl e
   | None \<Rightarrow> \<exists>a w. fst (keytab_endpoint x s req body sv) =
         keytab_reply s (kr_username body) (fst (mint_keytab (d_env x) s (kr_username body) a w))
       \<and> files w = files (sv_world sv) \<and> utf8_encode (kr_password body) = Inr (raw (heap w ! a))"
proof (cases "token_subject x s req sv")
  case (Inl e)
  then show ?thesis by (simp add: keytab_refusal_def token_Inl(3))
next
  case (Inr su)
  then obtain token claims where t: "bearer req = Some token"
    "fst (verify_broker_token (d_http x) (d_jwt x) s (t_jwks x) (t_jwks_locked x) token sv) = Inr claims"
    "map_of claims (lit ''sub'') = Some su"
    by (rule token_subject_Inr)
  have run: "keytab_endpoint x s req body =
      (let rid = str_or (x_request_id req) (d_uuid x); u = kr_username body in
      andthen (authenticate x s token (Some u) rid) (\<lambda>claims.
      andthen (claim claims ''sub'') (\<lambda>su.
      let j = claim_or_none claims ''jti'' in
      andthen (valid_username_or u su j rid) (\<lambda>_.
      andthen (under_limit x u su j rid) (\<lambda>_.
      andthen (password_buffer (kr_password body)) (\<lambda>p.
      keytab_finish x s u su j rid (mint_keytab (d_env x) s u p)))))))"
    by (simp add: keytab_endpoint_def Let_def t(1) keytab_finish_def)
  show ?thesis
  proof (cases "keytab_refusal x s req body sv")
    case (Some e)
    then show ?thesis
      by (auto simp: run Let_def t(2,3) step_answers keytab_refusal_def Inr password_buffer_run
          split: sum.splits if_splits)
  next
    case None
    then obtain bs where bs: "utf8_encode (kr_password body) = Inr bs"
      and ok: "validate_username (kr_username body) = Inr ()"
        "fst (check (sv_limiter sv) (kr_username body) (t_check x)) = Inr ()"
      by (auto simp: keytab_refusal_def Inr split: sum.splits if_splits)
    show ?thesis
      unfolding None option.case
      by (simp add: run Let_def t(2,3) step_answers ok password_buffer_run bs new_bytearray_run fst_keytab_finish)
        (intro exI conjI, rule refl, simp_all add: step_frames nth_append)
  qed
qed

text \<open>
  C13: the same for \<open>/v1/renew\<close> (token, 422 for bad base64, then \<open>renew_ticket\<close>) and
  \<open>/v1/keytab\<close> (token, username 422, limiter 429, then \<open>mint_keytab\<close>).
\<close>

theorem renew_and_keytab_reply_exactly:
  "(case renew_refused x s req b64 sv of
     Some e \<Rightarrow> fst (renew x s req b64 sv) = Inl e
   | None \<Rightarrow> \<exists>bs w. fst (renew x s req b64 sv) = renew_reply (fst (renew_ticket (d_env x) (d_krb5 x) s bs w))
       \<and> files w = files (sv_world sv) \<and> b64decode_validate b64 = Inr bs)
   \<and> (case keytab_refusal x s req body sv of
     Some e \<Rightarrow> fst (keytab_endpoint x s req body sv) = Inl e
   | None \<Rightarrow> \<exists>a w. fst (keytab_endpoint x s req body sv) =
         keytab_reply s (kr_username body) (fst (mint_keytab (d_env x) s (kr_username body) a w))
       \<and> files w = files (sv_world sv) \<and> utf8_encode (kr_password body) = Inr (raw (heap w ! a)))"
  by (rule conjI [OF renew_replies keytab_replies])

section \<open>Nothing leaks through an answer\<close>

definition public_answer :: "settings \<Rightarrow> exn \<Rightarrow> bool" where
  "public_answer s e \<longleftrightarrow> step_error s e \<or> (\<exists>c d. e = HTTPException c d []
     \<and> (c, d) \<in> set [(400, lit ''bad password''), (400, lit ''bad keytab''), (400, lit ''unknown principal''),
          (403, ACCOUNT_REVOKED_DETAIL), (403, PASSWORD_EXPIRED_DETAIL), (502, lit ''Ticket minting failed.''),
          (422, lit ''invalid ccache''), (400, lit ''ticket no longer renewable''),
          (502, lit ''Ticket renewal failed.''), (502, lit ''Keytab generation failed.'')])"

lemma public_plain [simp]: "\<not> is_HTTPException e \<Longrightarrow> public_answer s e"
  by (simp add: public_answer_def)

lemma public_step: "raises (step_error s) m \<Longrightarrow> raises (public_answer s) m"
  by (erule raises_weaken) (simp add: public_answer_def)

lemmas raises_public_steps = raises_steps_public [THEN public_step]

lemma raises_fst: "(\<And>w e. fst (m w) = Inl e \<Longrightarrow> E e) \<Longrightarrow> raises E m"
  by (simp add: raises_def split: sum.split)

lemma raises_fstD: "raises E m \<Longrightarrow> fst (m w) = Inl e \<Longrightarrow> E e"
  by (auto simp: raises_def dest: spec [of _ w])

lemma minting_exn_cases:
  assumes "plain_krb5 lib" and "minting_exn lib e"
  obtains "e = BadPasswordError (lit ''bad password'')" | "e = BadKeytabError (lit ''bad keytab'')"
    | "e = UnknownPrincipalError (lit ''unknown principal'')" | "e = AccountUnusableError ACCOUNT_REVOKED_DETAIL"
    | "e = AccountUnusableError PASSWORD_EXPIRED_DETAIL" | "e = TicketExpiredError (lit ''ticket no longer renewable'')"
    | "\<not> is_HTTPException e \<and> \<not> is_typed_error e"
proof -
  have plain: "\<not> is_HTTPException e' \<and> \<not> is_typed_error e'" if "read_ccache lib f = Inl e'" for f e'
    using assms(1) that by (auto simp: plain_krb5_def cache_exns_def split: sum.splits)
  from assms(2) that show ?thesis
    by (cases e) (auto simp: minting_exn_def dest: plain)
qed

lemma public_minting:
  assumes "plain_krb5 lib" and "minting_exn lib e"
  shows "public_answer s (mint_answer_of e)" "public_answer s (renew_answer_of e)" "public_answer s (keytab_answer_of e)"
  by (rule minting_exn_cases [OF assms]; cases e; simp add: public_answer_def)+

lemma raises_public_finish:
  assumes "plain_krb5 lib"
  shows "raises (public_answer s) (mint_finish x u su j r b (mint_ticket env lib s' u' p l rn k))"
    and "raises (public_answer s) (renew_finish su j r (renew_ticket env lib s' c))"
    and "raises (public_answer s) (keytab_finish x s' u su j r (mint_keytab env s' u' a))"
proof -
  note raised = minting_raises [where lib = lib, THEN raises_fstD]
  show "raises (public_answer s) (mint_finish x u su j r b (mint_ticket env lib s' u' p l rn k))"
    by (intro raises_fst) (auto simp: fst_mint_finish mint_reply_def intro: public_minting(1) [OF assms raised(1)])
  show "raises (public_answer s) (renew_finish su j r (renew_ticket env lib s' c))"
    by (intro raises_fst) (auto simp: fst_renew_finish renew_reply_def intro: public_minting(2) [OF assms raised(2)])
  show "raises (public_answer s) (keytab_finish x s' u su j r (mint_keytab env s' u' a))"
    by (intro raises_fst) (auto simp: fst_keytab_finish keytab_reply_def intro: public_minting(3) [OF assms raised(3)])
qed

lemma mint_public:
  assumes "plain_krb5 (d_krb5 x)" and "plain_jwt (d_jwt x)"
  shows "raises (public_answer s) (mint x s req body)" and "raises (public_answer s) (renew x s req b64)"
    and "raises (public_answer s) (keytab_endpoint x s req kbody)"
proof -
  note steps = raises_public_steps(1) [OF assms(2)] raises_public_steps(2-8) raises_public_finish [OF assms(1)]
  show "raises (public_answer s) (mint x s req body)"
  proof (cases "bearer req")
    case (Some token)
    show ?thesis
      unfolding mint_authenticated [OF Some] Let_def by (intro raises_intro steps)
  qed (simp add: mint_def Let_def steps)
  show "raises (public_answer s) (renew x s req b64)"
    unfolding renew_def Let_def renew_finish_def [symmetric]
    by (intro raises_intro steps;
        ((rule public_plain, auto dest: b64decode_plain; fail) | simp add: public_answer_def step_error_def))
  show "raises (public_answer s) (keytab_endpoint x s req kbody)"
    unfolding keytab_endpoint_def Let_def keytab_finish_def [symmetric] by (intro raises_intro steps)
qed

text \<open>
  C14: every \<open>HTTPException\<close> a client can get is on a fixed list of texts, which only the JWKS URL of
  the configuration and the seconds until a lockout ends vary: nothing of a child's stderr, of the
  token or of a credential reaches the client.
\<close>

theorem answers_are_public:
  assumes "plain_krb5 (d_krb5 x)" and "plain_jwt (d_jwt x)"
  shows "raises (public_answer s) (mint x s req body) \<and> raises (public_answer s) (renew x s req b64)
    \<and> raises (public_answer s) (keytab_endpoint x s req kbody)"
  using mint_public [OF assms] by blast

theorem answers_are_public_witness:
  "raises (public_answer default_settings) (mint (sample_deps sample_jwks (kinit_writes [5, 4])
     (failing_lib (Krb5Error (lit ''bad'')))) default_settings sample_request sample_body)"
  using answers_are_public [OF plain_sample plain_jwt_sample] by blast

section \<open>Round trips through the endpoints\<close>


end
