(* ===== verification/App_Keys.thy ===== *)
theory App_Keys
  imports App_Replies
begin

text \<open>
  Where the keys that tokens are verified with come from: a call changes the JWKS cache only by
  what the endpoint answered to that call.
\<close>

definition jwks_from :: "http_lib \<Rightarrow> settings \<Rightarrow> rat \<Rightarrow> service \<Rightarrow> service \<Rightarrow> bool" where
  "jwks_from http s t sv sv' \<longleftrightarrow> (\<forall>url. sv_jwks sv' url = sv_jwks sv url
     \<or> (url = broker_jwks_url s \<and> (\<exists>ks. fetch_try http url = Inr ks
          \<and> sv_jwks sv' url = Some \<lparr>keys = ks, fetched_at = t\<rparr>)))"

interpretation jk: state_order "jwks_from http s t" for http s t
proof
  show "jwks_from http s t w w" for w by (simp add: jwks_from_def)
  show "jwks_from http s t u w" if "jwks_from http s t u v" "jwks_from http s t v w" for u v w
    using that unfolding jwks_from_def by metis
qed

lemma jk_prims [keeps_intro]:
  "jk.keeps http s t (on_world m)" "jk.keeps http s t (limiter_check u n)"
  "jk.keeps http s t (limiter_record u n)" "jk.keeps http s t (limiter_reset u)"
  "jk.keeps http s t (get_jwks http s now t)"
proof -
  show "jk.keeps http s t (on_world m)" "jk.keeps http s t (limiter_check u n)"
    "jk.keeps http s t (limiter_record u n)" "jk.keeps http s t (limiter_reset u)"
    by (simp_all add: jk.keeps_def jwks_from_def on_world_def limiter_check_def limiter_record_def
        limiter_reset_def split: prod.split)
  show "jk.keeps http s t (get_jwks http s now t)"
    by (auto simp: jk.keeps_def jwks_from_def get_jwks_run jwks_entry_after_def split: sum.split)
qed

lemma jk_answers [keeps_intro]:
  "jk.keeps http s t (refused su u j out r c d h)" "jk.keeps http s t (issued su u w j r v)"
  "jk.keeps http s t (not_authenticated r)"
  unfolding refused_def issued_def audit_def not_authenticated_def by (intro keeps_intro)+

lemma jk_steps [keeps_intro]:
  "jk.keeps (d_http x) s (t_jwks_locked x) (authenticate x s w u r)" "jk.keeps http s t (claim cl n)"
  "jk.keeps http s t (valid_username_or v su j r)" "jk.keeps http s t (valid_lifetimes_or l rn v su j r)"
  "jk.keeps http s t (under_limit x v su j r)" "jk.keeps http s t (password_buffer pw)"
  "jk.keeps http s t (credential_buffers body su j r)"
proof -
  have "jk.keeps (d_http x) s (t_jwks_locked x)
      (verify_broker_token (d_http x) (d_jwt x) s (t_jwks x) (t_jwks_locked x) w)"
    unfolding verify_broker_token_def token_refused_def by (intro keeps_intro)
  then show "jk.keeps (d_http x) s (t_jwks_locked x) (authenticate x s w u r)"
    unfolding authenticate_def by (intro keeps_intro; auto simp: jk_answers split: exn.splits)
  show "jk.keeps http s t (under_limit x v su j r)"
    unfolding under_limit_def by (intro keeps_intro; auto simp: jk_answers split: exn.splits)
  show "jk.keeps http s t (claim cl n)" "jk.keeps http s t (valid_username_or v su j r)"
    "jk.keeps http s t (valid_lifetimes_or l rn v su j r)" "jk.keeps http s t (password_buffer pw)"
    "jk.keeps http s t (credential_buffers body su j r)"
    unfolding claim_def valid_username_or_def valid_lifetimes_or_def credential_buffers_def
      password_buffer_def new_bytearray_def
    by (intro keeps_intro)+
qed

lemma jk_failed:
  "mint_failed x u su j r e = Some g \<Longrightarrow> jk.keeps http s t g"
  "renew_refusal su j r e = Some g \<Longrightarrow> jk.keeps http s t g"
  "keytab_failed x u su j r e = Some h \<Longrightarrow> jk.keeps http s t h"
  by (auto simp: mint_failed_def renew_refusal_def keytab_failed_def split: exn.splits intro!: keeps_intro)

lemma handlers_jwks:
  "jk.keeps (d_http x) s (t_jwks_locked x) (mint x s req body)"
  "jk.keeps (d_http x) s (t_jwks_locked x) (renew x s req b64)"
  "jk.keeps (d_http x) s (t_jwks_locked x) (keytab_endpoint x s req kbody)"
  unfolding mint_def renew_def keytab_endpoint_def Let_def
  by (intro keeps_intro; erule jk_failed)+

end
