(* ===== verification/App_Service.thy ===== *)
theory App_Service
  imports App_Keys
begin

text \<open>
  The calls of the three endpoints under one type: the username whose password a call tries, its
  outcome, what the outcome adds to the wrong-password history of the username, and the state
  \<open>create_app\<close> starts from.
\<close>

section \<open>Calls and what they answer\<close>

datatype api_call =
    Mint deps request mint_request
  | Renew deps request pystr
  | Keytab deps request keytab_request

fun deps_of :: "api_call \<Rightarrow> deps" where
  "deps_of (Mint x _ _) = x"
| "deps_of (Renew x _ _) = x"
| "deps_of (Keytab x _ _) = x"

text \<open>The exception a call answers with; \<open>None\<close> for a success.\<close>

definition outcome_of :: "exn + 'a \<Rightarrow> exn option" where
  "outcome_of r = (case r of Inl e \<Rightarrow> Some e | Inr _ \<Rightarrow> None)"

fun handle :: "settings \<Rightarrow> api_call \<Rightarrow> service \<Rightarrow> exn option \<times> service" where
  "handle s (Mint x req body) sv = (case mint x s req body sv of (r, sv1) \<Rightarrow> (outcome_of r, sv1))"
| "handle s (Renew x req b64) sv = (case renew x s req b64 sv of (r, sv1) \<Rightarrow> (outcome_of r, sv1))"
| "handle s (Keytab x req body) sv = (case keytab_endpoint x s req body sv of (r, sv1) \<Rightarrow> (outcome_of r, sv1))"

text \<open>The username whose password a call tries.\<close>

fun tries :: "api_call \<Rightarrow> pystr option" where
  "tries (Mint _ _ body) = (if rq_password body = None then None else Some (rq_username body))"
| "tries (Renew _ _ _) = None"
| "tries (Keytab _ _ body) = Some (kr_username body)"

definition plain_deps :: "deps \<Rightarrow> bool" where
  "plain_deps x \<longleftrightarrow> plain_krb5 (d_krb5 x) \<and> plain_jwt (d_jwt x)"

text \<open>The wrong-password answers of a username since its last success, after one more call.\<close>

definition note_answer :: "api_call \<Rightarrow> exn option \<Rightarrow> (pystr \<Rightarrow> rat list) \<Rightarrow> pystr \<Rightarrow> rat list" where
  "note_answer c a bad =
     (case tries c of
        None \<Rightarrow> bad
      | Some u \<Rightarrow> bad(u := (if a = None then [] else if a = Some bad_password
                          then bad u @ [t_fail (deps_of c)] else bad u)))"

definition bad_answers :: "(api_call \<times> exn option) list \<Rightarrow> pystr \<Rightarrow> rat list" where
  "bad_answers tr = foldl (\<lambda>bad (c, a). note_answer c a bad) (\<lambda>_. []) tr"

lemma bad_answers_simps [simp]:
  "bad_answers [] = (\<lambda>_. [])"
  "bad_answers (tr @ [(c, a)]) = note_answer c a (bad_answers tr)"
  by (simp_all add: bad_answers_def)

lemma create_app_state:
  assumes "create_app (Some s) env cached = Inr app"
  shows "app_settings app = s" and "sv_limiter (app_service app) = new_rate_limiter
      (failed_auth_max_attempts s) (of_int (failed_auth_window_seconds s)) (of_int (failed_auth_lockout_seconds s))"
    and "sv_jwks (app_service app) = Map.empty" and "sv_world (app_service app) = empty_world"
  using assms by (auto simp: create_app_def split: sum.splits)

definition answered :: "exn option \<Rightarrow> bool" where
  "answered a = (case a of None \<Rightarrow> True | Some e \<Rightarrow> is_HTTPException e)"

end
