(* ===== verification/App_Segments.thy ===== *)
theory App_Segments
  imports App_Service
begin

text \<open>
  The handlers cut at their \<open>await\<close> points. A handler runs in three atomic segments: up to the
  verified token (the JWKS is awaited), from there to the call of the minting operation (which is
  awaited), and from its result to the answer. Run back to back the segments are the handler.
\<close>

section \<open>The segments\<close>

text \<open>The first, which the endpoints share: the \<open>sub\<close> and \<open>jti\<close> claims.\<close>

definition request_id :: "deps \<Rightarrow> request \<Rightarrow> pystr" where
  "request_id x req = str_or (x_request_id req) (d_uuid x)"

definition token_segment :: "deps \<Rightarrow> settings \<Rightarrow> request \<Rightarrow> pystr option \<Rightarrow> (json \<times> json) call" where
  "token_segment x s req username =
     (case bearer req of
        None \<Rightarrow> not_authenticated (request_id x req)
      | Some token \<Rightarrow>
          andthen (authenticate x s token username (request_id x req)) (\<lambda>claims.
          andthen (claim claims ''sub'') (\<lambda>subject. ret (subject, claim_or_none claims ''jti''))))"

definition mint_admit ::
    "deps \<Rightarrow> settings \<Rightarrow> request \<Rightarrow> mint_request \<Rightarrow> json \<times> json \<Rightarrow> (nat option \<times> nat option) call" where
  "mint_admit x s req body who =
     (let rid = request_id x req; u = rq_username body; su = fst who; j = snd who
      in andthen (valid_username_or u su j rid) (\<lambda>_.
         andthen (valid_lifetimes_or (lifetime_of s body) (renewable_of s body) u su j rid) (\<lambda>_.
         andthen (if rq_password body \<noteq> None then under_limit x u su j rid else ret ()) (\<lambda>_.
         credential_buffers body su j rid))))"

definition mint_end ::
    "deps \<Rightarrow> settings \<Rightarrow> request \<Rightarrow> mint_request \<Rightarrow> json \<times> json \<Rightarrow> nat option \<times> nat option \<Rightarrow> mint_response call" where
  "mint_end x s req body who bufs =
     mint_finish x (rq_username body) (fst who) (snd who) (request_id x req) (rq_password body \<noteq> None)
       (mint_ticket (d_env x) (d_krb5 x) s (rq_username body) (fst bufs) (lifetime_of s body)
          (renewable_of s body) (snd bufs))"

definition renew_admit :: "deps \<Rightarrow> request \<Rightarrow> pystr \<Rightarrow> json \<times> json \<Rightarrow> bytes call" where
  "renew_admit x req b64 who =
     (case b64decode_validate b64 of
        Inr bs \<Rightarrow> ret bs
      | Inl e \<Rightarrow>
          if is_ValueError e
          then refused (fst who) None (snd who) ''denied'' (request_id x req) 422 (lit ''invalid ccache_b64'') []
          else throw e)"

definition renew_end :: "deps \<Rightarrow> settings \<Rightarrow> request \<Rightarrow> json \<times> json \<Rightarrow> bytes \<Rightarrow> mint_response call" where
  "renew_end x s req who bs =
     renew_finish (fst who) (snd who) (request_id x req) (renew_ticket (d_env x) (d_krb5 x) s bs)"

definition keytab_admit :: "deps \<Rightarrow> request \<Rightarrow> keytab_request \<Rightarrow> json \<times> json \<Rightarrow> nat call" where
  "keytab_admit x req body who =
     (let rid = request_id x req; u = kr_username body; su = fst who; j = snd who
      in andthen (valid_username_or u su j rid) (\<lambda>_.
         andthen (under_limit x u su j rid) (\<lambda>_. password_buffer (kr_password body))))"

definition keytab_end ::
    "deps \<Rightarrow> settings \<Rightarrow> request \<Rightarrow> keytab_request \<Rightarrow> json \<times> json \<Rightarrow> nat \<Rightarrow> keytab_response call" where
  "keytab_end x s req body who a =
     keytab_finish x s (kr_username body) (fst who) (snd who) (request_id x req)
       (mint_keytab (d_env x) s (kr_username body) a)"

lemma refused_andthen [simp]: "andthen (refused su u j out r c d h) f = refused su u j out r c d h"
  by (simp add: refused_def andthen_assoc)

lemma not_authenticated_andthen [simp]: "andthen (not_authenticated r) f = not_authenticated r"
  by (simp add: not_authenticated_def)

lemmas segment_simps = token_segment_def mint_admit_def mint_end_def renew_admit_def renew_end_def
  keytab_admit_def keytab_end_def request_id_def Let_def andthen_assoc

lemma mint_segments:
  "mint x s req body =
     andthen (token_segment x s req (Some (rq_username body))) (\<lambda>who.
     andthen (mint_admit x s req body who) (\<lambda>bufs. mint_end x s req body who bufs))"
proof (cases "bearer req")
  case None
  then show ?thesis by (simp add: mint_def segment_simps)
next
  case (Some token)
  then show ?thesis
    by (cases "rq_password body") (simp_all add: mint_authenticated segment_simps case_prod_unfold)
qed

lemma renew_segments:
  "renew x s req b64 =
     andthen (token_segment x s req None) (\<lambda>who.
     andthen (renew_admit x req b64 who) (\<lambda>bs. renew_end x s req who bs))"
  by (cases "bearer req"; cases "b64decode_validate b64") (simp_all add: renew_def renew_finish_def segment_simps b64decode_error)

lemma keytab_segments:
  "keytab_endpoint x s req body =
     andthen (token_segment x s req (Some (kr_username body))) (\<lambda>who.
     andthen (keytab_admit x req body who) (\<lambda>a. keytab_end x s req body who a))"
  by (cases "bearer req") (simp_all add: keytab_endpoint_def keytab_finish_def segment_simps)

section \<open>Tasks\<close>

text \<open>A task between two segments: its token is verified, or its minting operation is awaited.\<close>

datatype task =
    Verified api_call "json \<times> json"
  | Minting deps request mint_request "json \<times> json" "nat option \<times> nat option"
  | Renewing deps request pystr "json \<times> json" bytes
  | Keytabbing deps request keytab_request "json \<times> json" nat

fun call_of :: "task \<Rightarrow> api_call" where
  "call_of (Verified c who) = c"
| "call_of (Minting x req body who bufs) = Mint x req body"
| "call_of (Renewing x req b64 who bs) = Renew x req b64"
| "call_of (Keytabbing x req body who a) = Keytab x req body"

fun awaiting :: "task \<Rightarrow> bool" where
  "awaiting (Verified c who) = False"
| "awaiting _ = True"

text \<open>What a segment ends with: an answer, or the task that the next segment continues.\<close>

definition next_task :: "('a \<Rightarrow> task) \<Rightarrow> (exn + 'a) \<times> service \<Rightarrow> (exn option + task) \<times> service" where
  "next_task f r = (case r of (Inl e, sv) \<Rightarrow> (Inl (Some e), sv) | (Inr v, sv) \<Rightarrow> (Inr (f v), sv))"

definition answer :: "(exn + 'a) \<times> service \<Rightarrow> (exn option + task) \<times> service" where
  "answer r = (case r of (q, sv) \<Rightarrow> (Inl (outcome_of q), sv))"

fun receive :: "settings \<Rightarrow> api_call \<Rightarrow> service \<Rightarrow> (exn option + task) \<times> service" where
  "receive s (Mint x req body) sv =
     next_task (Verified (Mint x req body)) (token_segment x s req (Some (rq_username body)) sv)"
| "receive s (Renew x req b64) sv = next_task (Verified (Renew x req b64)) (token_segment x s req None sv)"
| "receive s (Keytab x req body) sv =
     next_task (Verified (Keytab x req body)) (token_segment x s req (Some (kr_username body)) sv)"

fun resume :: "settings \<Rightarrow> task \<Rightarrow> service \<Rightarrow> (exn option + task) \<times> service" where
  "resume s (Verified (Mint x req body) who) sv =
     next_task (Minting x req body who) (mint_admit x s req body who sv)"
| "resume s (Verified (Renew x req b64) who) sv =
     next_task (Renewing x req b64 who) (renew_admit x req b64 who sv)"
| "resume s (Verified (Keytab x req body) who) sv =
     next_task (Keytabbing x req body who) (keytab_admit x req body who sv)"
| "resume s (Minting x req body who bufs) sv = answer (mint_end x s req body who bufs sv)"
| "resume s (Renewing x req b64 who bs) sv = answer (renew_end x s req who bs sv)"
| "resume s (Keytabbing x req body who a) sv = answer (keytab_end x s req body who a sv)"

text \<open>Undisturbed, the segments of a call are \<open>handle\<close>.\<close>

definition proceed :: "settings \<Rightarrow> (exn option + task) \<times> service \<Rightarrow> (exn option + task) \<times> service" where
  "proceed s r = (case r of (Inl a, sv) \<Rightarrow> (Inl a, sv) | (Inr tk, sv) \<Rightarrow> resume s tk sv)"

lemma proceed_simps [simp]:
  "proceed s (Inl a, sv) = (Inl a, sv)" "proceed s (Inr tk, sv) = resume s tk sv"
  by (simp_all add: proceed_def)

lemma andthen_run:
  "andthen m f sv = (case m sv of (Inl e, sv1) \<Rightarrow> (Inl e, sv1) | (Inr v, sv1) \<Rightarrow> f v sv1)"
  by (simp add: andthen_def)

lemma segments_run:
  "proceed s (proceed s (receive s c sv)) = (case handle s c sv of (a, sv1) \<Rightarrow> (Inl a, sv1))"
  by (cases c)
    (simp_all add: mint_segments renew_segments keytab_segments andthen_run next_task_def answer_def
      outcome_of_def split: prod.split sum.split)

end
