(* ===== verification/App_Moves.thy ===== *)
theory App_Moves
  imports App_Segments
begin

text \<open>
  What one segment does: to the limiter, to the audit log and to the JWKS cache. The first segment
  never touches the limiter, the second asks it at most once, and the third records what CERN said.
\<close>

section \<open>The answer of a segment that starts nothing\<close>

text \<open>A refusal is neither a success nor \<open>bad password\<close>.\<close>

definition refusal :: "exn option \<Rightarrow> bool" where
  "refusal a \<longleftrightarrow> a \<noteq> None \<and> a \<noteq> Some bad_password"

lemma refusal_Some [simp]: "refusal (Some e) \<longleftrightarrow> other e"
  by (auto simp: refusal_def)

lemma next_task_cases:
  assumes "next_task f r = (q, sv)"
  obtains (stop) e where "r = (Inl e, sv)" and "q = Inl (Some e)"
    | (go) v where "r = (Inr v, sv)" and "q = Inr (f v)"
  using assms by (auto simp: next_task_def split: prod.splits sum.splits)

lemma raises_token_segment:
  "plain_jwt (d_jwt x) \<Longrightarrow> raises other (token_segment x s req u)"
  unfolding token_segment_def by (intro raises_intro raises_steps)

lemma raises_mint_admit: "raises other (mint_admit x s req body who)"
  unfolding mint_admit_def Let_def by (intro raises_intro raises_steps)

lemma raises_keytab_admit: "raises other (keytab_admit x req body who)"
  unfolding keytab_admit_def Let_def by (intro raises_intro raises_steps)

lemma raises_renew_admit: "raises other (renew_admit x req b64 who)"
  unfolding renew_admit_def by (intro raises_intro) (auto simp: bad_password_def dest: b64decode_plain)

section \<open>The limiter\<close>

lemma token_segment_keeps: "lm.keeps (token_segment x s req u)"
  unfolding token_segment_def by (intro keeps_intro)

lemma renew_admit_keeps: "lm.keeps (renew_admit x req b64 who)"
  unfolding renew_admit_def by (intro keeps_intro)

lemma mint_admit_keeps: "rq_password body = None \<Longrightarrow> lm.keeps (mint_admit x s req body who)"
  unfolding mint_admit_def Let_def by simp (intro keeps_intro)

text \<open>An admission: on a refusal the limiter is what it was or what \<open>check\<close> left; otherwise \<open>check\<close> let
  the attempt pass.\<close>

definition admit_effect :: "rate_limiter \<Rightarrow> exn + unit \<Rightarrow> rate_limiter \<Rightarrow> exn + 'a \<Rightarrow> rate_limiter \<Rightarrow> bool" where
  "admit_effect L p L1 r L' \<longleftrightarrow>
     (case r of
        Inl e \<Rightarrow> other e \<and> (L' = L \<or> L' = L1)
      | Inr _ \<Rightarrow> p = Inr () \<and> L' = L1)"

lemma admit_tail:
  assumes raise: "raises other m" and keep: "lm.keeps m" and same: "sv_limiter sv = L"
  shows "ends (admit_effect L (fst (check L u (t_check x))) (snd (check L u (t_check x))))
    (andthen (under_limit x u su j rid) (\<lambda>_. m)) sv"
proof (rule ends_step [OF raises_steps(5)], goal_cases)
  case (1 e)
  then show ?case by (simp add: admit_effect_def under_limit_ends same)
next
  case (2 v)
  let ?sv1 = "snd (under_limit x u su j rid sv)"
  have "sv_limiter (snd (m ?sv1)) = snd (check L u (t_check x))"
    using lm_run [OF keep] by (simp add: under_limit_ends same)
  with under_limit_ends(2) [OF 2] raisesD [OF raise, of ?sv1] show ?case
    by (cases "m ?sv1") (auto simp: ends_def admit_effect_def same split: sum.split)
qed

lemma mint_admit_ends:
  assumes "rq_password body \<noteq> None"
  shows "ends (admit_effect (sv_limiter sv) (fst (check (sv_limiter sv) (rq_username body) (t_check x)))
    (snd (check (sv_limiter sv) (rq_username body) (t_check x)))) (mint_admit x s req body who) sv"
  unfolding mint_admit_def Let_def
proof (rule ends_late [OF validation_keeps(2) raises_steps(3)], simp add: admit_effect_def,
    rule ends_late [OF validation_keeps(4) raises_steps(4)], simp add: admit_effect_def, goal_cases)
  case (1 u1 sv1 u2 sv2)
  have "raises other (credential_buffers body su j r)" for su j r by (rule raises_steps(7))
  from admit_tail [OF this buffers_keep(8)] 1 assms show ?case by simp
qed

lemma keytab_admit_ends:
  "ends (admit_effect (sv_limiter sv) (fst (check (sv_limiter sv) (kr_username body) (t_check x)))
    (snd (check (sv_limiter sv) (kr_username body) (t_check x)))) (keytab_admit x req body who) sv"
  unfolding keytab_admit_def Let_def
proof (rule ends_late [OF validation_keeps(2) raises_steps(3)], simp add: admit_effect_def, goal_cases)
  case (1 u1 sv1)
  have "raises other (password_buffer pw)" for pw by (rule raises_steps(6))
  from admit_tail [OF this buffers_keep(6)] 1 show ?case by simp
qed

text \<open>The third segment: success resets, \<open>bad password\<close> records, nothing else moves the limiter.\<close>

definition settled :: "pystr \<Rightarrow> rat \<Rightarrow> rate_limiter \<Rightarrow> exn option \<Rightarrow> rate_limiter" where
  "settled u t L a = (if a = None then reset L u else if a = Some bad_password then record_failure L u t else L)"

lemma settled_effect: "password_effect u t L (Inr (), L) r L' \<Longrightarrow> L' = settled u t L (outcome_of r)"
  by (auto simp: password_effect_def settled_def outcome_of_def split: sum.splits if_splits)

lemma mint_end_settles:
  assumes "rq_password body \<noteq> None" and "plain_krb5 (d_krb5 x)"
  shows "ends (password_effect (rq_username body) (t_fail x) (sv_limiter sv) (Inr (), sv_limiter sv))
    (mint_end x s req body who bufs) sv"
proof -
  note tail = password_tail [OF answers_by_failed(1) raises_minting_other(1) [OF assms(2)],
      of "(Inr (), sv_limiter sv)" sv]
  from assms(1) show ?thesis
    unfolding mint_end_def mint_finish_def by (simp add: tail)
qed

lemma keytab_end_settles:
  assumes "plain_krb5 (d_krb5 x)"
  shows "ends (password_effect (kr_username body) (t_fail x) (sv_limiter sv) (Inr (), sv_limiter sv))
    (keytab_end x s req body who a) sv"
  unfolding keytab_end_def keytab_finish_def
  by (rule password_tail [OF answers_by_failed(2) raises_minting_other(2) [OF assms]]) simp_all

lemma mint_end_keeps:
  assumes "rq_password body = None" and "plain_krb5 (d_krb5 x)"
  shows "lm.keeps (mint_end x s req body who (None, Some k))"
proof -
  have "(if rq_password body \<noteq> None then limiter_reset u else ret ()) = ret ()" for u using assms(1) by simp
  then show ?thesis
    unfolding mint_end_def mint_finish_def fst_conv snd_conv
    by simp (intro lm.keeps_andthen mint_ticket_keytab_keeps [OF assms(2)] keeps_intro)
qed

lemma renew_end_keeps: "lm.keeps (renew_end x s req who bs)"
  unfolding renew_end_def renew_finish_def by (intro keeps_intro) (auto dest: mint_failed_keeps(3))

section \<open>Tasks\<close>

text \<open>A task the service can hold: its collaborators raise none of the exceptions that mean something
  to the handlers, and a minting task has the credential buffer of its mode.\<close>

fun task_ok :: "task \<Rightarrow> bool" where
  "task_ok (Verified c who) = plain_deps (deps_of c)"
| "task_ok (Minting x req body who bufs) =
     (plain_deps x \<and> (rq_password body = None \<longrightarrow> fst bufs = None \<and> snd bufs \<noteq> None))"
| "task_ok (Renewing x req b64 who bs) = plain_deps x"
| "task_ok (Keytabbing x req body who a) = plain_deps x"

lemma receive_token:
  "\<exists>req u. receive s c sv = next_task (Verified c) (token_segment (deps_of c) s req u sv)"
  by (cases c) auto

lemma receive_moves:
  assumes "receive s c sv = (r, sv')" and "plain_deps (deps_of c)"
  shows "sv_limiter sv' = sv_limiter sv"
    and "case r of Inl a \<Rightarrow> refusal a | Inr tk \<Rightarrow> call_of tk = c \<and> \<not> awaiting tk \<and> task_ok tk"
proof -
  let ?x = "deps_of c"
  obtain req u where m: "next_task (Verified c) (token_segment ?x s req u sv) = (r, sv')"
    using receive_token [of s c sv] assms(1) by auto
  have plain: "plain_jwt (d_jwt ?x)" using assms(2) by (simp add: plain_deps_def)
  have "sv_limiter sv' = sv_limiter sv
    \<and> (case r of Inl a \<Rightarrow> refusal a | Inr tk \<Rightarrow> call_of tk = c \<and> \<not> awaiting tk \<and> task_ok tk)"
  proof (rule next_task_cases [OF m], goal_cases)
    case (1 e)
    then show ?case
      using raisesD [OF raises_token_segment [OF plain], of s req u sv] lm_run [OF token_segment_keeps, of ?x s req u sv] by auto
  next
    case (2 v)
    then show ?case
      using lm_run [OF token_segment_keeps, of ?x s req u sv] assms(2) by auto
  qed
  then show "sv_limiter sv' = sv_limiter sv"
    and "case r of Inl a \<Rightarrow> refusal a | Inr tk \<Rightarrow> call_of tk = c \<and> \<not> awaiting tk \<and> task_ok tk"
    by blast+
qed

lemma admit_task:
  assumes e: "ends (admit_effect L p L1) m sv" and run: "next_task f (m sv) = (r, sv')"
    and f: "\<And>v. call_of (f v) = c \<and> awaiting (f v)"
  shows "case r of Inl a \<Rightarrow> refusal a \<and> (sv_limiter sv' = L \<or> sv_limiter sv' = L1)
     | Inr tk' \<Rightarrow> p = Inr () \<and> sv_limiter sv' = L1 \<and> call_of tk' = c \<and> awaiting tk'"
  using run e by (cases rule: next_task_cases) (auto simp: ends_def admit_effect_def f)

lemma admission_moves:
  assumes run: "resume s (Verified c who) sv = (r, sv')" and t: "tries c = Some u"
    and L: "L = sv_limiter sv"
  shows "case r of Inl a \<Rightarrow> refusal a \<and> (sv_limiter sv' = L \<or> sv_limiter sv' = snd (check L u (t_check (deps_of c))))
     | Inr tk \<Rightarrow> fst (check L u (t_check (deps_of c))) = Inr ()
         \<and> sv_limiter sv' = snd (check L u (t_check (deps_of c))) \<and> call_of tk = c \<and> awaiting tk"
proof (cases c)
  case (Mint x req body)
  then have "rq_password body \<noteq> None" "u = rq_username body" using t by (auto split: if_splits)
  with admit_task [OF mint_admit_ends, of body "Minting x req body who" x s req who sv r sv' c] run Mint
  show ?thesis by (cases r) (simp_all add: L)
next
  case (Renew x req b64)
  with t show ?thesis by simp
next
  case (Keytab x req body)
  with admit_task [OF keytab_admit_ends [where sv = sv and body = body and x = x and req = req and who = who],
      of "Keytabbing x req body who" r sv' c] run t
  show ?thesis by (cases r) (simp_all add: L)
qed

lemma quiet_admission:
  assumes run: "resume s (Verified c who) sv = (r, sv')" and t: "tries c = None"
  shows "sv_limiter sv' = sv_limiter sv"
    and "case r of Inl a \<Rightarrow> refusal a | Inr tk \<Rightarrow> call_of tk = c \<and> awaiting tk"
proof -
  have "sv_limiter sv' = sv_limiter sv \<and> (case r of Inl a \<Rightarrow> refusal a | Inr tk \<Rightarrow> call_of tk = c \<and> awaiting tk)"
  proof (cases c)
    case (Mint x req body)
    then have kt: "rq_password body = None" using t by (auto split: if_splits)
    have "next_task (Minting x req body who) (mint_admit x s req body who sv) = (r, sv')"
      using run Mint by simp
    then show ?thesis
      using lm_run [OF mint_admit_keeps [OF kt], of x s req who sv] raisesD [OF raises_mint_admit, of x s req body who sv] Mint
      by (cases rule: next_task_cases) auto
  next
    case (Renew x req b64)
    have "next_task (Renewing x req b64 who) (renew_admit x req b64 who sv) = (r, sv')"
      using run Renew by simp
    then show ?thesis
      using lm_run [OF renew_admit_keeps, of x req b64 who sv] raisesD [OF raises_renew_admit, of x req b64 who sv] Renew
      by (cases rule: next_task_cases) auto
  next
    case (Keytab x req body)
    with t show ?thesis by simp
  qed
  then show "sv_limiter sv' = sv_limiter sv"
    and "case r of Inl a \<Rightarrow> refusal a | Inr tk \<Rightarrow> call_of tk = c \<and> awaiting tk"
    by blast+
qed

lemma credential_buffers_keytab:
  "rq_password body = None \<Longrightarrow> fst (credential_buffers body su j r sv) = Inr bufs \<Longrightarrow>
     fst bufs = None \<and> snd bufs \<noteq> None"
  by (auto simp: credential_buffers_run Let_def split: sum.splits)

lemma admitted_task_ok:
  assumes "resume s (Verified c who) sv = (Inr tk, sv')" and "plain_deps (deps_of c)"
  shows "task_ok tk"
proof (cases c)
  case (Mint x req body)
  obtain bufs where m: "mint_admit x s req body who sv = (Inr bufs, sv')" and tk: "tk = Minting x req body who bufs"
    using assms(1) Mint by (auto elim: next_task_cases)
  have "fst bufs = None \<and> snd bufs \<noteq> None" if kt: "rq_password body = None"
  proof -
    have "fst (mint_admit x s req body who sv) = Inr bufs" using m by simp
    then obtain sv1 where "fst (credential_buffers body (fst who) (snd who) (request_id x req) sv1) = Inr bufs"
      by (auto simp: mint_admit_def Let_def kt fst_andthen split: sum.splits)
    then show ?thesis by (rule credential_buffers_keytab [OF kt])
  qed
  with tk assms(2) Mint show ?thesis by simp
qed (use assms in \<open>auto elim: next_task_cases\<close>)

lemma answer_ends: "answer (m sv) = (r, sv') \<Longrightarrow>
    r = Inl (outcome_of (fst (m sv))) \<and> sv' = snd (m sv)"
  by (cases "m sv") (simp add: answer_def)

lemma answer_moves:
  assumes run: "resume s tk sv = (r, sv')" and ok: "task_ok tk" and aw: "awaiting tk"
  shows "\<exists>a. r = Inl a \<and> sv_limiter sv' = (case tries (call_of tk) of None \<Rightarrow> sv_limiter sv
     | Some u \<Rightarrow> settled u (t_fail (deps_of (call_of tk))) (sv_limiter sv) a)"
proof (cases tk)
  case (Verified c who)
  with aw show ?thesis by simp
next
  case (Minting x req body who bufs)
  let ?m = "mint_end x s req body who bufs"
  have plain: "plain_krb5 (d_krb5 x)" using ok Minting by (simp add: plain_deps_def)
  have r: "r = Inl (outcome_of (fst (?m sv)))" "sv' = snd (?m sv)"
    using answer_ends [of ?m sv r sv'] run Minting by simp_all
  show ?thesis
  proof (cases "rq_password body = None")
    case True
    then obtain k where "bufs = (None, Some k)" using ok Minting by (cases bufs) auto
    with mint_end_keeps [OF True plain] have "lm.keeps ?m" by simp
    from lm_run [OF this, of sv] r Minting True show ?thesis by simp
  next
    case False
    from settled_effect [OF mint_end_settles [OF False plain, unfolded ends_def]] r Minting False
    show ?thesis by auto
  qed
next
  case (Renewing x req b64 who bs)
  have "answer (renew_end x s req who bs sv) = (r, sv')" using run Renewing by simp
  then have "r = Inl (outcome_of (fst (renew_end x s req who bs sv)))" "sv' = snd (renew_end x s req who bs sv)"
    by (auto dest: answer_ends)
  with lm_run [OF renew_end_keeps, of x s req who bs sv] Renewing show ?thesis by simp
next
  case (Keytabbing x req body who a)
  let ?m = "keytab_end x s req body who a"
  have plain: "plain_krb5 (d_krb5 x)" using ok Keytabbing by (simp add: plain_deps_def)
  have "r = Inl (outcome_of (fst (?m sv)))" "sv' = snd (?m sv)"
    using answer_ends [of ?m sv r sv'] run Keytabbing by simp_all
  with settled_effect [OF keytab_end_settles [OF plain, unfolded ends_def]] Keytabbing show ?thesis by auto
qed

section \<open>The audit log and the keys\<close>

lemma segments_count:
  assumes "plain_krb5 (d_krb5 x)"
  shows "counts 0 (token_segment x s req u)" and "counts 0 (mint_admit x s req body who)"
    and "counts 0 (renew_admit x req b64 who)" and "counts 0 (keytab_admit x req kbody who)"
    and "counts 1 (mint_end x s req body who bufs)" and "counts 1 (renew_end x s req who bs)"
    and "counts 1 (keytab_end x s req kbody who a)"
proof -
  note minting = counts_minting [OF assms]
  show "counts 0 (token_segment x s req u)" "counts 0 (mint_admit x s req body who)"
    "counts 0 (keytab_admit x req kbody who)"
    unfolding token_segment_def mint_admit_def keytab_admit_def Let_def by (intro counts_intro)+
  show "counts 0 (renew_admit x req b64 who)"
    unfolding renew_admit_def by (intro counts_intro; auto dest: b64decode_plain)
  show "counts 1 (mint_end x s req body who bufs)" "counts 1 (renew_end x s req who bs)"
    "counts 1 (keytab_end x s req kbody who a)"
    unfolding mint_end_def renew_end_def keytab_end_def mint_finish_def renew_finish_def keytab_finish_def
    by (intro counts_intro minting)+
qed

definition lines_of :: "exn option + task \<Rightarrow> nat" where
  "lines_of r = (case r of Inl a \<Rightarrow> if answered a then 1 else 0 | Inr _ \<Rightarrow> 0)"

lemma next_task_lines:
  assumes "counts 0 m" and "next_task f (m sv) = (r, sv')"
  shows "length (audits sv') = length (audits sv) + lines_of r"
  using assms(2)
  by (cases rule: next_task_cases) (auto simp: lines_of_def answered_def dest!: countsD [OF assms(1)] split: if_splits)

lemma answer_lines:
  assumes "counts 1 m" and "answer (m sv) = (r, sv')"
  shows "length (audits sv') = length (audits sv) + lines_of r"
proof (cases "m sv")
  case (Pair q sv1)
  with countsD [OF assms(1) Pair] assms(2) show ?thesis
    by (cases q) (auto simp: answer_def lines_of_def answered_def outcome_of_def)
qed

lemma receive_lines:
  assumes "receive s c sv = (r, sv')" and "plain_deps (deps_of c)"
  shows "length (audits sv') = length (audits sv) + lines_of r"
proof -
  obtain req u where m: "next_task (Verified c) (token_segment (deps_of c) s req u sv) = (r, sv')"
    using receive_token [of s c sv] assms(1) by auto
  show ?thesis
    by (rule next_task_lines [OF segments_count(1) m]) (use assms(2) in \<open>simp add: plain_deps_def\<close>)
qed

lemma resume_lines:
  assumes "resume s tk sv = (r, sv')" and "task_ok tk"
  shows "length (audits sv') = length (audits sv) + lines_of r"
proof -
  note next_task_lines [OF segments_count(2)] next_task_lines [OF segments_count(3)]
    next_task_lines [OF segments_count(4)] answer_lines [OF segments_count(5)]
    answer_lines [OF segments_count(6)] answer_lines [OF segments_count(7)]
  note lines = this
  show ?thesis
  proof (cases tk)
    case (Verified c who)
    with assms show ?thesis by (cases c) (auto simp: plain_deps_def intro: lines)
  qed (use assms in \<open>auto simp: plain_deps_def intro: lines\<close>)
qed

lemma segments_jwks [keeps_intro]:
  "jk.keeps (d_http x) s (t_jwks_locked x) (token_segment x s req u)"
  "jk.keeps http s t (mint_admit x s req body who)" "jk.keeps http s t (renew_admit x req b64 who)"
  "jk.keeps http s t (keytab_admit x req kbody who)" "jk.keeps http s t (mint_end x s req body who bufs)"
  "jk.keeps http s t (renew_end x s req who bs)" "jk.keeps http s t (keytab_end x s req kbody who a)"
  unfolding token_segment_def mint_admit_def renew_admit_def keytab_admit_def mint_end_def renew_end_def
    keytab_end_def mint_finish_def renew_finish_def keytab_finish_def Let_def
  by (intro keeps_intro; erule jk_failed)+

lemma snd_segment [simp]: "snd (next_task f r) = snd r" "snd (answer r) = snd r"
  by (auto simp: next_task_def answer_def split: prod.split sum.split)

lemma receive_jwks:
  assumes "receive s c sv = (r, sv')"
  shows "jwks_from (d_http (deps_of c)) s (t_jwks_locked (deps_of c)) sv sv'"
proof -
  obtain req u where "receive s c sv = next_task (Verified c) (token_segment (deps_of c) s req u sv)"
    using receive_token by blast
  then have "sv' = snd (token_segment (deps_of c) s req u sv)" using assms by (metis snd_conv snd_segment(1))
  then show ?thesis using segments_jwks(1) by (simp add: jk.keeps_def)
qed

lemma resume_jwks: "jwks_from http s t sv (snd (resume s tk sv))"
proof -
  note keep = segments_jwks(2-7) [unfolded jk.keeps_def, THEN spec]
  show ?thesis
  proof (cases tk)
    case (Verified c who)
    then show ?thesis by (cases c) (simp_all add: keep)
  qed (simp_all add: keep)
qed

end
