(* ===== verification/App_Refusing.thy ===== *)
theory App_Refusing
  imports App_Service
begin

text \<open>
  A concrete service for the witnesses: cern-get-keytab refuses the password of every call, and the
  settings allow one failed attempt.
\<close>

definition refusing_deps :: "rat \<Rightarrow> deps" where
  "refusing_deps t = (sample_deps sample_jwks
      (scripted_env (\<lambda>c fs. (Exited 1 [] (map of_int (lit ''Preauthentication failed'')), fs)))
      (failing_lib (Krb5Error (lit ''bad''))))\<lparr>t_check := t, t_fail := t\<rparr>"

definition strict_settings :: settings where
  "strict_settings = default_settings\<lparr>failed_auth_max_attempts := 1\<rparr>"

definition keytab_call_at :: "rat \<Rightarrow> api_call" where
  "keytab_call_at t = Keytab (refusing_deps t) sample_request \<lparr>kr_username = lit ''alice'', kr_password = lit ''pw''\<rparr>"

lemma refusing_plain: "plain_deps (refusing_deps t)"
  using plain_sample plain_jwt_sample by (simp add: plain_deps_def refusing_deps_def)

lemma refusing_subject:
  assumes "\<And>en. sv_jwks sv (broker_jwks_url strict_settings) = Some en \<Longrightarrow> keys en = sample_jwks"
  shows "token_subject (refusing_deps t) strict_settings sample_request sv = Inr (JStr (lit ''alice''))"
proof -
  have "fst (get_jwks (d_http (refusing_deps t)) strict_settings n0 n1 sv) = Inr sample_jwks" for n0 n1
    using assms by (auto simp: get_jwks_run jwks_answer_def fresh_entry_def refusing_deps_def sample_deps_def
        fetch_try_def item_keys_def sample_jwks_def py_len_def split: option.splits)
  then show ?thesis
    by (simp add: token_subject_def verify_broker_token_def fst_andthen verify_try_def refusing_deps_def
        sample_deps_def sample_jwt_def sample_jwks_def sample_request_def select_jwk_def ret_def)
qed

lemma refusing_classified:
  "cern_get_keytab_error 1 (map of_int (lit ''Preauthentication failed'')) = BadPasswordError (lit ''bad password'')"
  by code_simp

lemma refusing_argv:
  "argv_error (argv (keytab_call (scripted_env c) strict_settings (lit ''alice'') (lit ''/tmp/krb5cc/t'') [])) = None"
  by code_simp

lemma refused_password:
  assumes "\<And>en. sv_jwks sv (broker_jwks_url strict_settings) = Some en \<Longrightarrow> keys en = sample_jwks"
    and "fst (check (sv_limiter sv) (lit ''alice'') t) = Inr ()"
  shows "fst (handle strict_settings (keytab_call_at t) sv) = Some bad_password"
proof -
  let ?body = "\<lparr>kr_username = lit ''alice'', kr_password = lit ''pw''\<rparr>" and ?env = "d_env (refusing_deps t)"
  have user: "validate_username (lit ''alice'') = Inr ()" by code_simp
  have pw: "utf8_encode (lit ''pw'') = Inr [112, 119]" by code_simp
  have times: "t_check (refusing_deps t) = t" by (simp add: refusing_deps_def)
  have none: "keytab_refusal (refusing_deps t) strict_settings sample_request ?body sv = None"
    using refusing_subject [OF assms(1)] by (simp add: keytab_refusal_def user pw assms(2) times)
  have "argv_error (argv (keytab_call ?env strict_settings (lit ''alice'') (lit ''/tmp/krb5cc/t'') [])) = None"
    using refusing_argv by (simp add: refusing_deps_def sample_deps_def)
  from keytab_run_outcome [OF _ _ _ this]
  have "fst (mint_keytab ?env strict_settings (lit ''alice'') a w) = Inl (BadPasswordError (lit ''bad password''))" for a w
    by (simp add: refusing_deps_def sample_deps_def scripted_env_def refusing_classified)
  with keytab_replies [of "refusing_deps t" strict_settings sample_request ?body sv] none
  have "fst (keytab_endpoint (refusing_deps t) strict_settings sample_request ?body sv) = Inl bad_password"
    by (auto simp: keytab_reply_def bad_password_def)
  then show ?thesis
    by (cases "keytab_endpoint (refusing_deps t) strict_settings sample_request ?body sv")
      (simp add: keytab_call_at_def outcome_of_def)
qed

lemma strict_valid: "settings_valid strict_settings"
  by (simp add: settings_valid_def strict_settings_def default_settings_def)

end
