(* ===== verification/App_Concurrent.thy ===== *)
theory App_Concurrent
  imports App_Moves App_Refusing
begin

text \<open>
  The service under any number of overlapping requests. asyncio runs one segment of one handler at
  a time; between segments any other task may run and time may pass. \<open>k\<close> bounds how many
  password attempts of one username are awaited together. Every run of the service is a run of the
  gate machine, so the budget of \<open>Gate\<close> is the service's.
\<close>

section \<open>The system\<close>

record system =
  sys_service :: service
  sys_clock :: rat
  sys_tasks :: "task list"
  sys_answers :: "(api_call \<times> exn option) list"

definition start_system :: "application \<Rightarrow> system" where
  "start_system app = \<lparr>sys_service = app_service app, sys_clock = 0, sys_tasks = [], sys_answers = []\<rparr>"

definition tries_user :: "pystr \<Rightarrow> task \<Rightarrow> bool" where
  "tries_user u tk \<longleftrightarrow> awaiting tk \<and> tries (call_of tk) = Some u"

definition running :: "system \<Rightarrow> pystr \<Rightarrow> nat" where
  "running y u = length (filter (tries_user u) (sys_tasks y))"

text \<open>After a segment of the call \<open>c\<close>, run between the tasks \<open>xs\<close> and \<open>ys\<close>.\<close>

definition settle ::
    "system \<Rightarrow> task list \<Rightarrow> task list \<Rightarrow> api_call \<Rightarrow> (exn option + task) \<times> service \<Rightarrow> system" where
  "settle y xs ys c r = y\<lparr>sys_service := snd r,
     sys_tasks := xs @ (case fst r of Inl _ \<Rightarrow> [] | Inr tk \<Rightarrow> [tk]) @ ys,
     sys_answers := sys_answers y @ (case fst r of Inl a \<Rightarrow> [(c, a)] | Inr _ \<Rightarrow> [])\<rparr>"

text \<open>The reading of the clock a segment makes: \<open>check\<close> in the second, \<open>record_failure\<close> in the third.\<close>

definition reads_at :: "task \<Rightarrow> rat" where
  "reads_at tk = (if awaiting tk then t_fail (deps_of (call_of tk)) else t_check (deps_of (call_of tk)))"

inductive sys_step :: "settings \<Rightarrow> nat \<Rightarrow> system \<Rightarrow> system \<Rightarrow> bool" for s :: settings and k :: nat where
  pass: "0 \<le> d \<Longrightarrow> sys_step s k y (y\<lparr>sys_clock := sys_clock y + d\<rparr>)"
| receive: "plain_deps (deps_of c) \<Longrightarrow>
    sys_step s k y (settle y (sys_tasks y) [] c (receive s c (sys_service y)))"
| resume: "sys_tasks y = xs @ tk # ys \<Longrightarrow> reads_at tk = sys_clock y \<Longrightarrow>
    y' = settle y xs ys (call_of tk) (resume s tk (sys_service y)) \<Longrightarrow> (\<And>u. running y' u \<le> k) \<Longrightarrow>
    sys_step s k y y'"

inductive sys_reachable :: "settings \<Rightarrow> nat \<Rightarrow> system \<Rightarrow> system \<Rightarrow> bool" for s k y0 where
  start: "sys_reachable s k y0 y0"
| step: "sys_reachable s k y0 y \<Longrightarrow> sys_step s k y y' \<Longrightarrow> sys_reachable s k y0 y'"

lemma settle_simps [simp]:
  "sys_service (settle y xs ys c r) = snd r" "sys_clock (settle y xs ys c r) = sys_clock y"
  "sys_tasks (settle y xs ys c r) = xs @ (case fst r of Inl _ \<Rightarrow> [] | Inr tk \<Rightarrow> [tk]) @ ys"
  "sys_answers (settle y xs ys c r) = sys_answers y @ (case fst r of Inl a \<Rightarrow> [(c, a)] | Inr _ \<Rightarrow> [])"
  by (simp_all add: settle_def)

section \<open>Every run is a run of the gate machine\<close>

definition gate_of :: "system \<Rightarrow> gate" where
  "gate_of y = \<lparr>limiter = sv_limiter (sys_service y), clock = sys_clock y, in_flight = running y,
     bad_times = bad_answers (sys_answers y)\<rparr>"

lemma gate_of_simps [simp]:
  "limiter (gate_of y) = sv_limiter (sys_service y)" "clock (gate_of y) = sys_clock y"
  "in_flight (gate_of y) = running y" "bad_times (gate_of y) = bad_answers (sys_answers y)"
  by (simp_all add: gate_of_def)

definition tasks_ok :: "system \<Rightarrow> bool" where
  "tasks_ok y \<longleftrightarrow> list_all task_ok (sys_tasks y)"

lemma tasks_ok_step: "sys_step s k y y' \<Longrightarrow> tasks_ok y \<Longrightarrow> tasks_ok y'"
proof (induction rule: sys_step.cases)
  case (pass d y)
  then show ?case by (simp add: tasks_ok_def)
next
  case (receive c y)
  obtain r sv' where r: "receive s c (sys_service y) = (r, sv')" by (cases "receive s c (sys_service y)")
  from receive_moves(2) [OF r receive(3)] receive show ?case
    by (cases r) (auto simp: tasks_ok_def r)
next
  case (resume y xs tk ys y')
  obtain r sv' where r: "resume s tk (sys_service y) = (r, sv')" by (cases "resume s tk (sys_service y)")
  have ok: "task_ok tk" "list_all task_ok xs" "list_all task_ok ys" using resume by (simp_all add: tasks_ok_def)
  have "task_ok tk'" if "r = Inr tk'" for tk'
  proof (cases "awaiting tk")
    case True
    from answer_moves [OF r ok(1) True] that show ?thesis by auto
  next
    case False
    then obtain c who where "tk = Verified c who" by (cases tk) auto
    with admitted_task_ok r ok(1) that show ?thesis by auto
  qed
  with ok resume show ?case by (cases r) (simp_all add: tasks_ok_def r)
qed

lemma note_refusal: "refusal a \<Longrightarrow> note_answer c a bad = bad"
  by (auto simp: refusal_def note_answer_def split: option.split)

lemma gate_dismiss:
  assumes "limiter g' = limiter g \<or> limiter g' = snd (check (limiter g) u (clock g))"
    and "clock g' = clock g" and "in_flight g' = in_flight g" and "bad_times g' = bad_times g"
  shows "gate_reachable k g g'"
proof (cases "limiter g' = limiter g")
  case True
  with assms have "g' = g" by simp
  then show ?thesis by (simp add: gate_reachable.start)
next
  case False
  obtain q rl where c: "check (limiter g) u (clock g) = (q, rl)" by (cases "check (limiter g) u (clock g)")
  with False assms have "g' = g\<lparr>limiter := rl\<rparr>" by simp
  with gate_step.dismiss [OF c] show ?thesis by (metis gate_reachable.start gate_reachable.step)
qed

lemma gate_eqI:
  "limiter g' = limiter g \<Longrightarrow> clock g' = clock g \<Longrightarrow> in_flight g' = in_flight g \<Longrightarrow> bad_times g' = bad_times g \<Longrightarrow>
     gate_reachable k g g'"
  using gate_dismiss [of g' g] by simp

lemma gate_one: "gate_step k g g1 \<Longrightarrow> g' = g1 \<Longrightarrow> gate_reachable k g g'"
  by (metis gate_reachable.start gate_reachable.step)

lemma quiet_task [simp]: "\<not> awaiting tk \<Longrightarrow> \<not> tries_user u tk"
  by (simp add: tries_user_def)

lemma receive_gate:
  assumes "plain_deps (deps_of c)" and y': "y' = settle y (sys_tasks y) [] c (receive s c (sys_service y))"
  shows "gate_reachable k (gate_of y) (gate_of y')"
proof -
  obtain r sv' where r: "receive s c (sys_service y) = (r, sv')" by (cases "receive s c (sys_service y)")
  from receive_moves [OF r assms(1)] show ?thesis
    by (cases r) (auto simp: y' r running_def note_refusal fun_eq_iff intro!: gate_eqI)
qed

text \<open>The number in flight before and after a task moves.\<close>

lemma running_split: "sys_tasks y = xs @ tk # ys \<Longrightarrow>
    running y u = length (filter (tries_user u) xs) + (if tries_user u tk then 1 else 0) + length (filter (tries_user u) ys)"
  by (simp add: running_def)

lemma running_settle: "running (settle y xs ys c r) u = length (filter (tries_user u) xs)
    + (case fst r of Inl _ \<Rightarrow> 0 | Inr tk \<Rightarrow> if tries_user u tk then 1 else 0) + length (filter (tries_user u) ys)"
  by (simp add: running_def split: sum.split)

lemma admission_gate:
  assumes tasks: "sys_tasks y = xs @ Verified c who # ys" and ok: "tasks_ok y"
    and now: "t_check (deps_of c) = sys_clock y"
    and y': "y' = settle y xs ys c (resume s (Verified c who) (sys_service y))"
    and room: "\<And>u. running y' u \<le> k"
  shows "gate_reachable k (gate_of y) (gate_of y')"
proof -
  obtain r sv' where r: "resume s (Verified c who) (sys_service y) = (r, sv')"
    by (cases "resume s (Verified c who) (sys_service y)")
  note before = running_split [OF tasks]
  show ?thesis
  proof (cases "tries c")
    case None
    from quiet_admission [OF r None] None show ?thesis
      by (cases r) (auto simp: y' r before running_settle note_refusal tries_user_def fun_eq_iff intro!: gate_eqI)
  next
    case (Some u)
    note moves = admission_moves [OF r Some refl, unfolded now]
    show ?thesis
    proof (cases r)
      case (Inl a)
      with moves show ?thesis
        by (intro gate_dismiss [where u = u]) (auto simp: y' r before running_settle note_refusal tries_user_def fun_eq_iff)
    next
      case (Inr tk)
      let ?L = "sv_limiter (sys_service y)"
      have c: "check ?L u (sys_clock y) = (Inr (), sv_limiter sv')"
        using moves Inr by (simp add: prod_eq_iff)
      have tries: "tries_user v tk \<longleftrightarrow> v = u" for v using moves Inr Some by (auto simp: tries_user_def)
      have run: "running y' v = (if v = u then Suc (running y v) else running y v)" for v
        by (simp add: y' r before running_settle Inr tries)
      with room [of u] have "running y u < k" by (simp add: Suc_le_eq)
      then have "gate_step k (gate_of y) (admit_attempt (gate_of y) u (sv_limiter sv'))"
        by (intro gate_step.admit) (simp_all add: c)
      moreover have "gate_of y' = admit_attempt (gate_of y) u (sv_limiter sv')"
        by (auto simp: admit_attempt_def gate_of_def run fun_eq_iff) (simp_all add: y' r Inr)
      ultimately show ?thesis by (rule gate_one)
    qed
  qed
qed

lemma answer_gate:
  assumes tasks: "sys_tasks y = xs @ tk # ys" and ok: "tasks_ok y" and aw: "awaiting tk"
    and now: "t_fail (deps_of (call_of tk)) = sys_clock y"
    and y': "y' = settle y xs ys (call_of tk) (resume s tk (sys_service y))"
  shows "gate_reachable k (gate_of y) (gate_of y')"
proof -
  let ?L = "sv_limiter (sys_service y)"
  obtain r sv' where r: "resume s tk (sys_service y) = (r, sv')" by (cases "resume s tk (sys_service y)")
  have "task_ok tk" using ok tasks by (simp add: tasks_ok_def)
  from answer_moves [OF r this aw, unfolded now] obtain a where a: "r = Inl a"
    and L: "sv_limiter sv' = (case tries (call_of tk) of None \<Rightarrow> ?L | Some u \<Rightarrow> settled u (sys_clock y) ?L a)"
    by blast
  note before = running_split [OF tasks]
  show ?thesis
  proof (cases "tries (call_of tk)")
    case None
    with L show ?thesis
      by (intro gate_eqI) (auto simp: y' r a before running_settle note_answer_def tries_user_def fun_eq_iff)
  next
    case (Some u)
    have tries: "tries_user v tk \<longleftrightarrow> v = u" for v using Some aw by (auto simp: tries_user_def)
    have run: "running y' = (running y)(u := running y u - 1)" "0 < running y u"
      by (auto simp: y' r a before running_settle tries fun_eq_iff)
    have bad: "bad_answers (sys_answers y') = note_answer (call_of tk) a (bad_answers (sys_answers y))"
      by (simp add: y' r a)
    have lim: "sv_limiter (sys_service y') = settled u (sys_clock y) ?L a" and clk: "sys_clock y' = sys_clock y"
      using L Some by (simp_all add: y' r)
    note same = gate_of_def run(1) bad lim clk note_answer_def Some settled_def now
    consider (good) "a = None" | (bad) "a = Some bad_password" | (other) "a \<noteq> None" "a \<noteq> Some bad_password" by blast
    then show ?thesis
    proof cases
      case good
      then have "gate_of y' = answer_good (gate_of y) u" by (simp add: answer_good_def same)
      then show ?thesis using gate_step.good [of "gate_of y" u] run(2) by (intro gate_one) auto
    next
      case bad
      then have "gate_of y' = answer_bad (gate_of y) u" by (simp add: answer_bad_def same)
      then show ?thesis using gate_step.bad [of "gate_of y" u] run(2) by (intro gate_one) auto
    next
      case other
      then have "gate_of y' = answer_other (gate_of y) u" by (cases a) (simp_all add: answer_other_def same)
      then show ?thesis using gate_step.other [of "gate_of y" u] run(2) by (intro gate_one) auto
    qed
  qed
qed

lemma sys_gate_step: "sys_step s k y y' \<Longrightarrow> tasks_ok y \<Longrightarrow> gate_reachable k (gate_of y) (gate_of y')"
proof (induction rule: sys_step.cases)
  case (pass d y)
  have "gate_of (y\<lparr>sys_clock := sys_clock y + d\<rparr>) = (gate_of y)\<lparr>clock := clock (gate_of y) + d\<rparr>"
    by (simp add: gate_of_def running_def [abs_def])
  with gate_one [OF gate_step.tick [OF pass(3)]] pass(1,2) show ?case by blast
next
  case (receive c y)
  then show ?case by (simp add: receive_gate)
next
  case (resume y xs tk ys y')
  show ?case
  proof (cases "awaiting tk")
    case True
    with answer_gate [OF resume(3), of y' s k] resume show ?thesis by (simp add: reads_at_def)
  next
    case False
    then obtain c who where "tk = Verified c who" by (cases tk) auto
    with admission_gate [of y xs c who ys y' s k] resume show ?thesis by (simp add: reads_at_def)
  qed
qed

lemma sys_gate_run:
  "sys_reachable s k y0 y \<Longrightarrow> tasks_ok y0 \<Longrightarrow> tasks_ok y \<and> gate_reachable k (gate_of y0) (gate_of y)"
proof (induction rule: sys_reachable.induct)
  case start
  then show ?case by (simp add: gate_reachable.start)
next
  case (step y y')
  then show ?case using tasks_ok_step sys_gate_step gate_run_trans by blast
qed

lemma start_ok [simp]: "tasks_ok (start_system app)"
  by (simp add: tasks_ok_def start_system_def)

lemma start_gate:
  assumes "create_app (Some s) env cached = Inr app"
  shows "gate_of (start_system app) = init_gate (failed_auth_max_attempts s)
    (of_int (failed_auth_window_seconds s)) (of_int (failed_auth_lockout_seconds s))"
  by (simp add: gate_of_def init_gate_def start_system_def create_app_state(2) [OF assms] running_def fun_eq_iff)

lemma app_gate:
  assumes "create_app (Some s) env cached = Inr app" and "sys_reachable s k (start_system app) y"
  shows "gate_reachable k (init_gate (failed_auth_max_attempts s) (of_int (failed_auth_window_seconds s))
    (of_int (failed_auth_lockout_seconds s))) (gate_of y)"
  using sys_gate_run [OF assms(2)] by (simp add: start_gate [OF assms(1)])

section \<open>A call that nothing disturbs\<close>

lemma sys_trans: "sys_reachable s k y1 y2 \<Longrightarrow> sys_reachable s k y0 y1 \<Longrightarrow> sys_reachable s k y0 y2"
  by (induction rule: sys_reachable.induct) (auto intro: sys_reachable.step)

lemma pass_to: "sys_clock y \<le> t \<Longrightarrow> sys_reachable s k y (y\<lparr>sys_clock := t\<rparr>)"
  using sys_reachable.step [OF sys_reachable.start sys_step.pass [of "t - sys_clock y" s k y]] by simp

lemma resume_alone:
  assumes run: "sys_reachable s k y0 y" and alone: "sys_tasks y = [tk]" and k: "0 < k"
    and t: "reads_at tk = t" "sys_clock y \<le> t"
    and r: "resume s tk (sys_service y) = r" and c: "call_of tk = c"
  shows "sys_reachable s k y0 (settle (y\<lparr>sys_clock := t\<rparr>) [] [] c r)"
proof -
  let ?y = "y\<lparr>sys_clock := t\<rparr>"
  have "running (settle ?y [] [] c r) u \<le> k" for u
    using k by (simp add: running_settle split: sum.split)
  then have "sys_step s k ?y (settle ?y [] [] c r)"
    by (intro sys_step.resume [of ?y "[]" tk "[]"]) (simp_all add: alone t r c)
  with sys_trans [OF pass_to [OF t(2)] run] show ?thesis
    by (rule sys_reachable.step)
qed

lemma call_alone:
  assumes idle: "sys_tasks y = []" and plain: "plain_deps (deps_of c)" and k: "0 < k"
    and t: "sys_clock y \<le> t_check (deps_of c)" "t_check (deps_of c) \<le> t_fail (deps_of c)"
    and run: "handle s c (sys_service y) = (a, sv')"
  shows "sys_reachable s k y (y\<lparr>sys_service := sv', sys_clock := t_fail (deps_of c),
    sys_answers := sys_answers y @ [(c, a)]\<rparr>)"
proof -
  let ?last = "y\<lparr>sys_service := sv', sys_clock := t_fail (deps_of c), sys_answers := sys_answers y @ [(c, a)]\<rparr>"
  obtain r1 sv1 where r1: "receive s c (sys_service y) = (r1, sv1)" by (cases "receive s c (sys_service y)")
  let ?y1 = "settle y [] [] c (r1, sv1)"
  have y1: "sys_reachable s k y ?y1"
    using sys_reachable.step [OF sys_reachable.start sys_step.receive [OF plain, of s k y]] by (simp add: idle r1)
  note whole = segments_run [of s c "sys_service y", unfolded r1 run prod.case]
  have finish: "sys_reachable s k y ?last"
    if "sys_reachable s k y y2" "sys_tasks y2 = []" "sys_service y2 = sv'" "sys_clock y2 \<le> t_fail (deps_of c)"
      "sys_answers y2 = sys_answers y @ [(c, a)]" for y2
  proof -
    have "y2\<lparr>sys_clock := t_fail (deps_of c)\<rparr> = ?last" using that idle by simp
    with sys_trans [OF pass_to [OF that(4)] that(1)] show ?thesis by metis
  qed
  show ?thesis
  proof (cases r1)
    case (Inl b)
    with whole t y1 idle show ?thesis by (intro finish [of ?y1]) simp_all
  next
    case (Inr tk1)
    then obtain who where tk1: "tk1 = Verified c who" and call: "call_of tk1 = c"
      using receive_moves(2) [OF r1 plain] by (cases tk1) auto
    obtain r2 sv2 where r2: "resume s tk1 sv1 = (r2, sv2)" by (cases "resume s tk1 sv1")
    let ?y2 = "settle (?y1\<lparr>sys_clock := t_check (deps_of c)\<rparr>) [] [] c (r2, sv2)"
    have y2: "sys_reachable s k y ?y2"
      by (rule resume_alone [OF y1 _ k, of tk1]) (use t(1) r2 Inr idle in \<open>simp_all add: reads_at_def tk1\<close>)
    show ?thesis
    proof (cases r2)
      case (Inl b)
      with whole t y2 idle Inr r2 show ?thesis by (intro finish [of ?y2]) simp_all
    next
      case (Inr tk2)
      have tk2: "call_of tk2 = c" "awaiting tk2"
        using admission_moves [OF r2 [unfolded tk1 Inr] _ refl] quiet_admission(2) [OF r2 [unfolded tk1 Inr]]
        by (cases "tries c"; simp)+
      obtain r3 sv3 where r3: "resume s tk2 sv2 = (r3, sv3)" by (cases "resume s tk2 sv2")
      let ?y3 = "settle (?y2\<lparr>sys_clock := t_fail (deps_of c)\<rparr>) [] [] c (r3, sv3)"
      have y3: "sys_reachable s k y ?y3"
        by (rule resume_alone [OF y2 _ k, of tk2]) (use t r3 Inr tk2 in \<open>simp_all add: reads_at_def\<close>)
      have "r3 = Inl a \<and> sv3 = sv'" using whole \<open>r1 = Inr tk1\<close> r2 Inr r3 by simp
      with y3 idle tk2 show ?thesis by (intro finish [of ?y3]) (simp_all add: Inr \<open>r1 = Inr tk1\<close>)
    qed
  qed
qed

section \<open>What every run keeps\<close>

lemma running_bounded: "sys_step s k y y' \<Longrightarrow> running y u \<le> k \<Longrightarrow> running y' u \<le> k"
proof (induction rule: sys_step.cases)
  case (pass d y)
  then show ?case by (simp add: running_def)
next
  case (receive c y)
  obtain r sv' where r: "receive s c (sys_service y) = (r, sv')" by (cases "receive s c (sys_service y)")
  have room: "running y u \<le> k" using receive by simp
  from receive_moves(2) [OF r receive(3)] receive(1,2) room show ?case
    by (cases r) (auto simp: running_def r)
qed simp

lemma sys_running: "sys_reachable s k y0 y \<Longrightarrow> running y0 u \<le> k \<Longrightarrow> running y u \<le> k"
  by (induction rule: sys_reachable.induct) (auto intro: running_bounded)

lemma answers_lines: "length (filter (\<lambda>(c, a). answered a) (case r of Inl a \<Rightarrow> [(c, a)] | Inr _ \<Rightarrow> [])) = lines_of r"
  by (simp add: lines_of_def split: sum.split)

lemma sys_audits_step:
  assumes "sys_step s k y y'" and "tasks_ok y"
  shows "length (audits (sys_service y')) + length (filter (\<lambda>(c, a). answered a) (sys_answers y))
    = length (audits (sys_service y)) + length (filter (\<lambda>(c, a). answered a) (sys_answers y'))"
  using assms
proof (induction rule: sys_step.cases)
  case (receive c y)
  then show ?case
    using receive_lines [of s c "sys_service y"] by (cases "receive s c (sys_service y)") (simp add: answers_lines)
next
  case (resume y xs tk ys y')
  then have "task_ok tk" by (simp add: tasks_ok_def)
  with resume resume_lines [of s tk "sys_service y"] show ?case
    by (cases "resume s tk (sys_service y)") (simp add: answers_lines)
qed simp

lemma sys_audits:
  assumes "sys_reachable s k y0 y" and "tasks_ok y0"
  shows "length (audits (sys_service y)) + length (filter (\<lambda>(c, a). answered a) (sys_answers y0))
    = length (audits (sys_service y0)) + length (filter (\<lambda>(c, a). answered a) (sys_answers y))"
  using assms(1)
proof induction
  case (step y y')
  then show ?case using sys_audits_step [OF step.hyps(2)] sys_gate_run [OF step.hyps(1) assms(2)] by simp
qed simp

text \<open>The calls a run has received: answered, or still a task.\<close>

definition received :: "system \<Rightarrow> api_call list" where
  "received y = List.map fst (sys_answers y) @ List.map call_of (sys_tasks y)"

lemma received_settle:
  assumes "\<And>tk. fst r = Inr tk \<Longrightarrow> call_of tk = c"
  shows "set (received (settle y xs ys c r)) = insert c (set (List.map fst (sys_answers y) @ List.map call_of (xs @ ys)))"
  using assms by (cases "fst r") (auto simp: received_def)

definition jwks_source :: "settings \<Rightarrow> api_call list \<Rightarrow> pystr \<Rightarrow> jwks_entry \<Rightarrow> bool" where
  "jwks_source s cs url en \<longleftrightarrow> url = broker_jwks_url s \<and> (\<exists>c \<in> set cs.
     fetch_try (d_http (deps_of c)) url = Inr (keys en) \<and> fetched_at en = t_jwks_locked (deps_of c))"

definition jwks_sourced :: "settings \<Rightarrow> system \<Rightarrow> bool" where
  "jwks_sourced s y \<longleftrightarrow> (\<forall>url en. sv_jwks (sys_service y) url = Some en \<longrightarrow> jwks_source s (received y) url en)"

lemma jwks_sourcedI:
  assumes "jwks_sourced s y" and "set (received y) \<subseteq> set (received y')" and "c \<in> set (received y')"
    and "jwks_from (d_http (deps_of c)) s (t_jwks_locked (deps_of c)) (sys_service y) (sys_service y')"
  shows "jwks_sourced s y'"
  unfolding jwks_sourced_def
proof (intro allI impI)
  fix url en
  assume en: "sv_jwks (sys_service y') url = Some en"
  with assms(4) have "sv_jwks (sys_service y) url = Some en \<or> (url = broker_jwks_url s \<and>
      fetch_try (d_http (deps_of c)) url = Inr (keys en) \<and> fetched_at en = t_jwks_locked (deps_of c))"
    unfolding jwks_from_def by (metis jwks_entry.select_convs option.inject)
  with assms(1-3) show "jwks_source s (received y') url en"
    unfolding jwks_sourced_def jwks_source_def by blast
qed

lemma segment_call: "resume s tk sv = (r, sv') \<Longrightarrow> task_ok tk \<Longrightarrow> r = Inr tk' \<Longrightarrow> call_of tk' = call_of tk"
proof -
  assume r: "resume s tk sv = (r, sv')" and ok: "task_ok tk" and tk': "r = Inr tk'"
  show ?thesis
  proof (cases tk)
    case (Verified c who)
    note r [unfolded Verified tk']
    from admission_moves [OF this _ refl] quiet_admission(2) [OF this] Verified show ?thesis
      by (cases "tries c"; simp)
  qed (use answer_moves [OF r ok] tk' in auto)
qed

lemma sys_jwks_step:
  assumes "sys_step s k y y'" and "tasks_ok y" and "jwks_sourced s y"
  shows "jwks_sourced s y'"
  using assms
proof (induction rule: sys_step.cases)
  case (pass d y)
  then show ?case by (simp add: jwks_sourced_def received_def)
next
  case (receive c y)
  obtain r sv' where r: "receive s c (sys_service y) = (r, sv')" by (cases "receive s c (sys_service y)")
  have "call_of tk = c" if "fst (r, sv') = Inr tk" for tk
    using receive_moves(2) [OF r receive(3)] that by simp
  from received_settle [of "(r, sv')", OF this, of y "sys_tasks y" "[]"] receive r
  have "set (received y') = insert c (set (received y))" by (simp add: received_def)
  with receive r receive_jwks [OF r] show ?case
    by (intro jwks_sourcedI [of s y y' c]) auto
next
  case (resume z xs tk ys z')
  obtain r sv' where r: "resume s tk (sys_service z) = (r, sv')" by (cases "resume s tk (sys_service z)")
  have "task_ok tk" using resume by (simp add: tasks_ok_def)
  with segment_call [OF r] have "call_of tk' = call_of tk" if "fst (r, sv') = Inr tk'" for tk'
    using that by simp
  from received_settle [of "(r, sv')", OF this, of z xs ys] resume r
  have "set (received z') = set (received z)" "call_of tk \<in> set (received z)" by (auto simp: received_def)
  moreover have "jwks_from http s t (sys_service z) (sys_service z')" for http t
    using resume_jwks [of http s t "sys_service z" tk] resume(5) by simp
  moreover have "jwks_sourced s z" using resume by simp
  ultimately have "jwks_sourced s z'" by (intro jwks_sourcedI [of s z z' "call_of tk"]) simp_all
  with resume(2) show ?case by simp
qed

lemma sys_jwks:
  assumes "sys_reachable s k y0 y" and "tasks_ok y0" and "jwks_sourced s y0"
  shows "jwks_sourced s y"
  using assms(1)
proof induction
  case start
  show ?case by (rule assms(3))
next
  case (step y y')
  then show ?case using sys_jwks_step sys_gate_run [OF step.hyps(1) assms(2)] by blast
qed

section \<open>Two wrong passwords, fifteen minutes apart\<close>

lemma refusing_call: "deps_of (keytab_call_at t) = refusing_deps t" "tries (keytab_call_at t) = Some (lit ''alice'')"
  "t_check (refusing_deps t) = t" "t_fail (refusing_deps t) = t"
  by (simp_all add: keytab_call_at_def refusing_deps_def)

lemma refused_alone:
  assumes "sys_tasks y = []" and "sys_clock y \<le> t" and "jwks_sourced strict_settings y"
    and "\<And>c. c \<in> set (received y) \<Longrightarrow> \<exists>t. c = keytab_call_at t"
    and "fst (check (sv_limiter (sys_service y)) (lit ''alice'') t) = Inr ()" and "0 < k"
  shows "\<exists>y'. sys_reachable strict_settings k y y' \<and> sys_tasks y' = [] \<and> sys_clock y' = t
    \<and> sys_answers y' = sys_answers y @ [(keytab_call_at t, Some bad_password)]
    \<and> sv_limiter (sys_service y') =
        record_failure (snd (check (sv_limiter (sys_service y)) (lit ''alice'') t)) (lit ''alice'') t"
proof -
  obtain a sv' where run: "handle strict_settings (keytab_call_at t) (sys_service y) = (a, sv')"
    by (cases "handle strict_settings (keytab_call_at t) (sys_service y)")
  have keys: "keys en = sample_jwks" if en: "sv_jwks (sys_service y) (broker_jwks_url strict_settings) = Some en" for en
  proof -
    obtain c where "c \<in> set (received y)" "fetch_try (d_http (deps_of c)) (broker_jwks_url strict_settings) = Inr (keys en)"
      using assms(3) en unfolding jwks_sourced_def jwks_source_def by blast
    moreover from assms(4) [OF this(1)] obtain t' where "c = keytab_call_at t'" ..
    ultimately show ?thesis
      by (simp add: refusing_call refusing_deps_def sample_deps_def fetch_try_def item_keys_def)
  qed
  have a: "a = Some bad_password"
    using refused_password [OF keys assms(5)] by (simp add: run)
  have "sys_reachable strict_settings k y (y\<lparr>sys_service := sv', sys_clock := t,
      sys_answers := sys_answers y @ [(keytab_call_at t, Some bad_password)]\<rparr>)"
    using call_alone [OF assms(1) _ assms(6) _ _ run] assms(2) unfolding a
    by (simp add: refusing_call refusing_plain)
  moreover have "sv_limiter sv' = record_failure (snd (check (sv_limiter (sys_service y)) (lit ''alice'') t)) (lit ''alice'') t"
    using limiter_moves(2) [of "refusing_deps t" "\<lparr>kr_username = lit ''alice'', kr_password = lit ''pw''\<rparr>"
        "sys_service y" strict_settings sample_request] refusing_plain [of t] run a
    by (auto simp: plain_deps_def keytab_call_at_def refusing_call password_effect_def outcome_of_def
        split: prod.splits sum.splits)
  ultimately show ?thesis by - (rule exI, rule conjI, assumption, simp add: assms(1))
qed

lemma one_refusal:
  "\<exists>(app :: application) y. create_app (Some strict_settings) default_settings None = Inr app
    \<and> sys_reachable strict_settings 1 (start_system app) y \<and> sys_tasks y = [] \<and> sys_clock y = 0
    \<and> sys_answers y = [(keytab_call_at 0, Some bad_password)] \<and> jwks_sourced strict_settings y
    \<and> lock_of (sv_limiter (sys_service y)) (lit ''alice'') = Some 900"
proof -
  let ?u = "lit ''alice''" and ?s = strict_settings
  have "configure_logging (log_level ?s) \<noteq> Inl e" for e
    unfolding strict_settings_def default_settings_def by (simp add: configure_logging_def ascii_upper_def level_names_def lit_def)
  then obtain app where app: "create_app (Some ?s) default_settings None = Inr (app :: application)"
    by (cases "configure_logging (log_level ?s)") (auto simp: create_app_def)
  let ?y0 = "start_system app"
  note st = create_app_state [OF app]
  have y0: "sys_tasks ?y0 = []" "sys_clock ?y0 = 0" "received ?y0 = []" "sys_answers ?y0 = []"
    "sys_service ?y0 = app_service app"
    by (simp_all add: start_system_def received_def)
  have src: "jwks_sourced ?s ?y0" by (simp add: jwks_sourced_def y0 st(3))
  have open0: "check (sv_limiter (sys_service ?y0)) ?u 0 = (Inr (), sv_limiter (app_service app))"
    by (simp add: y0 st(2) check_def new_rate_limiter_def)
  with refused_alone [of ?y0 0 1] src y0
  obtain y where y: "sys_reachable ?s 1 ?y0 y" "sys_tasks y = []" "sys_clock y = 0"
    "sys_answers y = [(keytab_call_at 0, Some bad_password)]"
    "sv_limiter (sys_service y) = record_failure (sv_limiter (app_service app)) ?u 0" by auto
  have "lock_of (sv_limiter (sys_service y)) ?u = Some 900"
    by (simp add: y(5) st(2) record_failure_def lock_of_def new_rate_limiter_def fresh_username_state_def
        strict_settings_def default_settings_def)
  with app y sys_jwks [OF y(1) start_ok src] show ?thesis by blast
qed

lemma two_refusals:
  "\<exists>(app :: application) y. create_app (Some strict_settings) default_settings None = Inr app
    \<and> sys_reachable strict_settings 1 (start_system app) y \<and> sys_tasks y = []
    \<and> sys_answers y = [(keytab_call_at 0, Some bad_password), (keytab_call_at 900, Some bad_password)]"
proof -
  let ?u = "lit ''alice''" and ?s = strict_settings
  obtain app :: application and y1 where app: "create_app (Some ?s) default_settings None = Inr app"
    and y1: "sys_reachable ?s 1 (start_system app) y1" "sys_tasks y1 = []" "sys_clock y1 = 0"
      "sys_answers y1 = [(keytab_call_at 0, Some bad_password)]" "jwks_sourced ?s y1"
      "lock_of (sv_limiter (sys_service y1)) ?u = Some 900"
    using one_refusal by blast
  have rec: "\<exists>t. c = keytab_call_at t" if "c \<in> set (received y1)" for c
    using that y1 by (auto simp: received_def)
  have "\<exists>rl. check (sv_limiter (sys_service y1)) ?u 900 = (Inr (), rl)"
    using y1(6) by (simp add: check_Inr_iff)
  then have "fst (check (sv_limiter (sys_service y1)) ?u 900) = Inr ()" by auto
  from refused_alone [OF y1(2) _ y1(5) rec this, of 1] y1(3,4)
  obtain y2 where "sys_reachable ?s 1 y1 y2" "sys_tasks y2 = []"
    "sys_answers y2 = [(keytab_call_at 0, Some bad_password), (keytab_call_at 900, Some bad_password)]"
    by auto
  with sys_trans [OF _ y1(1)] app show ?thesis by blast
qed

lemma failure_list_bound:
  assumes "create_app (Some s) env cached = Inr app" and "settings_valid s"
    and "sys_reachable s k (start_system app) y"
  shows "int (length (times_of (sv_limiter (sys_service y)) u)) < failed_auth_max_attempts s
    + (if lock_of (sv_limiter (sys_service y)) u = None then 0 else int k)"
proof -
  note run = app_gate [OF assms(1,3)]
  have "gate_inv k (gate_of y)"
    by (rule gate_reachable_inv [OF run gate_inv_init]) (use assms(2) in \<open>simp add: settings_valid_def\<close>)
  then have "rl.history_ok k (sv_limiter (sys_service y)) u (bad_answers (sys_answers y) u) (sys_clock y) (running y u)"
    by (simp add: gate_inv_def)
  with gate_config_reachable [OF run] rl.history_short show ?thesis
    by (fastforce simp: same_config_def init_gate_def new_rate_limiter_def)
qed

section \<open>The service keeps its promises\<close>

text \<open>
  C1: the budget, end to end. An application built from valid settings serves any requests, their
  handlers interleaved in any way at the \<open>await\<close> points, with at most \<open>k\<close> password attempts of one
  username awaited together. Then the wrong-password answers a username gets, over \<open>/v1/mint\<close> and
  \<open>/v1/keytab\<close> together and without a success between them, satisfy: more than
  \<open>max_attempts + 2 * (k - 1)\<close> consecutive ones span at least the smaller of the window and the
  lockout.
\<close>

theorem concurrent_attempt_budget:
  assumes "create_app (Some s) env cached = Inr app" and "settings_valid s"
    and "sys_reachable s k (start_system app) y"
    and "i + (nat (failed_auth_max_attempts s) + 2 * (k - 1)) < length (bad_answers (sys_answers y) u)"
  shows "of_int (min (failed_auth_window_seconds s) (failed_auth_lockout_seconds s))
     \<le> bad_answers (sys_answers y) u ! (i + (nat (failed_auth_max_attempts s) + 2 * (k - 1)))
        - bad_answers (sys_answers y) u ! i"
  using attempt_budget [OF app_gate [OF assms(1,3)], of i u] assms(2,4)
  by (simp add: settings_valid_def of_int_min)

theorem concurrent_attempt_budget_witness:
  "\<exists>tr. bad_answers tr (lit ''alice'') = [0, 900]
     \<and> of_int (min (failed_auth_window_seconds strict_settings) (failed_auth_lockout_seconds strict_settings))
       \<le> bad_answers tr (lit ''alice'') ! (0 + (nat 1 + 2 * (1 - 1))) - bad_answers tr (lit ''alice'') ! 0"
proof -
  obtain app :: application and y where app: "create_app (Some strict_settings) default_settings None = Inr app"
    and run: "sys_reachable strict_settings 1 (start_system app) y"
    and tr: "sys_answers y = [(keytab_call_at 0, Some bad_password), (keytab_call_at 900, Some bad_password)]"
    using two_refusals by blast
  have b: "bad_answers (sys_answers y) (lit ''alice'') = [0, 900]"
    by (simp add: tr bad_answers_def note_answer_def refusing_call)
  have one: "failed_auth_max_attempts strict_settings = 1" by (simp add: strict_settings_def)
  show ?thesis
    using concurrent_attempt_budget [OF app strict_valid run, of 0 "lit ''alice''"] b
    by (intro exI [of _ "sys_answers y"]) (simp add: one)
qed



section \<open>A locked username\<close>

text \<open>
  C18: while a username is locked out no attempt of it starts, however many requests arrive: no step
  taken before the lockout ends adds to its attempts in flight.
\<close>

theorem lockout_admits_nothing:
  assumes "sys_reachable s k (start_system app) y" and "sys_step s k y y'"
    and "lock_of (sv_limiter (sys_service y)) u = Some t" and "sys_clock y < t"
  shows "running y' u \<le> running y u"
  using assms(2)
proof cases
  case (pass d)
  then show ?thesis by (simp add: running_def)
next
  case (receive c)
  obtain r sv' where r: "receive s c (sys_service y) = (r, sv')" by (cases "receive s c (sys_service y)")
  from receive_moves(2) [OF r receive(2)] receive(1) r show ?thesis
    by (cases r) (auto simp: running_def)
next
  case (resume xs tk ys)
  have ok: "tasks_ok y" using sys_gate_run [OF assms(1) start_ok] by simp
  have "\<not> tries_user u tk'" if r: "resume s tk (sys_service y) = (Inr tk', sv')" and quiet: "\<not> awaiting tk" for tk' sv'
  proof
    assume tries: "tries_user u tk'"
    obtain c who where tk: "tk = Verified c who" using quiet by (cases tk) auto
    have "t_check (deps_of c) = sys_clock y" using resume(2) by (simp add: tk reads_at_def)
    moreover have "task_ok tk" using ok resume(1) by (simp add: tasks_ok_def)
    then have "tries c = Some u"
      using segment_call [OF r _ refl] tries by (simp add: tries_user_def tk)
    ultimately show False
      using admission_moves [OF r [unfolded tk] _ refl] check_blocked [OF assms(3,4)] by auto
  qed
  moreover have "\<exists>a. fst (resume s tk (sys_service y)) = Inl a" if "awaiting tk"
  proof -
    obtain r sv' where r: "resume s tk (sys_service y) = (r, sv')" by (cases "resume s tk (sys_service y)")
    have "task_ok tk" using ok resume(1) by (simp add: tasks_ok_def)
    from answer_moves [OF r this that] r show ?thesis by auto
  qed
  ultimately show ?thesis
    unfolding resume(3) running_settle running_split [OF resume(1)]
    by (cases "resume s tk (sys_service y)"; cases "fst (resume s tk (sys_service y))"; cases "awaiting tk") auto
qed

theorem lockout_admits_nothing_witness:
  "\<exists>(app :: application) y. sys_reachable strict_settings 1 (start_system app) y
     \<and> length (sys_answers y) = 1
     \<and> running (y\<lparr>sys_clock := sys_clock y + 1\<rparr>) (lit ''alice'') \<le> running y (lit ''alice'')"
proof -
  obtain app :: application and y where y: "sys_reachable strict_settings 1 (start_system app) y"
    "sys_answers y = [(keytab_call_at 0, Some bad_password)]" "sys_clock y = 0"
    "lock_of (sv_limiter (sys_service y)) (lit ''alice'') = Some 900"
    using one_refusal by blast
  have "sys_step strict_settings 1 y (y\<lparr>sys_clock := sys_clock y + 1\<rparr>)" by (rule sys_step.pass) simp
  from lockout_admits_nothing [OF y(1) this y(4)] y show ?thesis
    by (intro exI [of _ app] exI [of _ y]) simp
qed

end
