(* ===== verification/App_Memory.thy ===== *)
theory App_Memory
  imports App_Concurrent
begin

text \<open>
  The credential buffers of the service under overlapping requests: every buffer belongs to the task
  that made it, holds the credential of that task's own request until its minting operation ends,
  and is all zeros afterwards.
\<close>

section \<open>Steps that leave the buffers alone\<close>

definition same_heap :: "service \<Rightarrow> service \<Rightarrow> bool" where
  "same_heap sv sv' \<longleftrightarrow> heap (sv_world sv') = heap (sv_world sv)"

interpretation bf: state_order same_heap
  by unfold_locales (simp_all add: same_heap_def)

lemma bf_run: "bf.keeps m \<Longrightarrow> heap (sv_world (snd (m sv))) = heap (sv_world sv)"
  by (simp add: bf.keeps_def same_heap_def)

lemma bf_prims [keeps_intro]:
  "bf.keeps (on_world (log_op l n d))" "bf.keeps (cache_put url en)" "bf.keeps (limiter_check u t)"
  "bf.keeps (limiter_record u t)" "bf.keeps (limiter_reset u)" "bf.keeps (on_world (fetch_jwks http url))"
  by (simp_all add: bf.keeps_def same_heap_def on_world_def log_op_def cache_put_def limiter_check_def
      limiter_record_def limiter_reset_def fetch_jwks_run split: prod.split sum.split)

lemma bf_steps [keeps_intro]:
  "bf.keeps (refused su u j out r c d h)" "bf.keeps (issued su u who j r val)" "bf.keeps (not_authenticated r)"
  "bf.keeps (authenticate x s t un r)" "bf.keeps (claim cl n)" "bf.keeps (valid_username_or v su j r)"
  "bf.keeps (valid_lifetimes_or l rn v su j r)" "bf.keeps (under_limit x v su j r)"
proof -
  have stale: "bf.keeps g" if "serve_stale url entry e = Some g" for url entry e g
    by (rule serve_stale_cases [OF that], simp, intro keeps_intro)
  have jwks: "bf.keeps (get_jwks http s now0 now1)" for http s now0 now1
    unfolding get_jwks_def get_jwks_locked_def store_jwks_def Let_def
    by (intro keeps_intro; erule stale)
  show refused: "bf.keeps (refused su u j out r c d h)" for su u j out r c d h
    unfolding refused_def audit_def by (intro keeps_intro)
  show "bf.keeps (issued su u who j r val)" "bf.keeps (not_authenticated r)"
    unfolding issued_def not_authenticated_def audit_def by (intro keeps_intro refused)+
  have "bf.keeps (verify_broker_token http jwt s n0 n1 t)" for http jwt n0 n1
    unfolding verify_broker_token_def token_refused_def by (intro keeps_intro jwks)
  then show "bf.keeps (authenticate x s t un r)"
    unfolding authenticate_def by (intro keeps_intro; auto simp: refused split: exn.splits)
  show "bf.keeps (claim cl n)" "bf.keeps (valid_username_or v su j r)" "bf.keeps (valid_lifetimes_or l rn v su j r)"
    unfolding claim_def valid_username_or_def valid_lifetimes_or_def
    by (intro keeps_intro refused)+
  show "bf.keeps (under_limit x v su j r)"
    unfolding under_limit_def by (intro keeps_intro; auto simp: refused split: exn.splits)
qed

lemma bf_failed:
  "mint_failed x u su j r e = Some g \<Longrightarrow> bf.keeps g" "renew_refusal su j r e = Some g \<Longrightarrow> bf.keeps g"
  "keytab_failed x u su j r e = Some h \<Longrightarrow> bf.keeps h"
  by (auto simp: mint_failed_def renew_refusal_def keytab_failed_def split: exn.splits intro!: keeps_intro)

lemma bf_segments [keeps_intro]: "bf.keeps (token_segment x s req u)" "bf.keeps (renew_admit x req b64 who)"
  unfolding token_segment_def renew_admit_def by (intro keeps_intro)+

section \<open>The segments\<close>

text \<open>A segment after the minting operation moves no buffer.\<close>

lemma bf_tail:
  assumes "\<And>e g. h e = Some g \<Longrightarrow> bf.keeps g" and "\<And>v. bf.keeps (f v)"
  shows "heap (sv_world (snd (andthen (catching (on_world m) h) f sv))) = heap (snd (m (sv_world sv)))"
proof -
  obtain r w where m: "m (sv_world sv) = (r, w)" by (cases "m (sv_world sv)")
  let ?sv1 = "sv\<lparr>sv_world := w\<rparr>"
  have run: "on_world m sv = (r, ?sv1)" by (simp add: on_world_def m)
  obtain q sv2 where c: "catching (on_world m) h sv = (q, sv2)" by (cases "catching (on_world m) h sv")
  have "heap (sv_world sv2) = heap w"
  proof (cases r)
    case (Inl e)
    show ?thesis
    proof (cases "h e")
      case None
      with Inl c run show ?thesis by (auto simp: catching_def)
    next
      case (Some g)
      with Inl c run bf_run [OF assms(1), of e g ?sv1] show ?thesis by (simp add: catching_def)
    qed
  next
    case (Inr v)
    with c run show ?thesis by (auto simp: catching_def)
  qed
  with c bf_run [OF assms(2)] m show ?thesis
    by (cases q) (simp_all add: andthen_def)
qed

lemma heap_mint_end:
  "heap (sv_world (snd (mint_end x s req body who bufs sv))) =
     heap (snd (mint_ticket (d_env x) (d_krb5 x) s (rq_username body) (fst bufs) (lifetime_of s body)
       (renewable_of s body) (snd bufs) (sv_world sv)))"
  unfolding mint_end_def mint_finish_def by (rule bf_tail) (erule bf_failed | intro keeps_intro)+

lemma heap_renew_end:
  "heap (sv_world (snd (renew_end x s req who bs sv))) = heap (snd (renew_ticket (d_env x) (d_krb5 x) s bs (sv_world sv)))"
  unfolding renew_end_def renew_finish_def by (rule bf_tail) (erule bf_failed | intro keeps_intro)+

lemma heap_keytab_end:
  "heap (sv_world (snd (keytab_end x s req body who a sv))) =
     heap (snd (mint_keytab (d_env x) s (kr_username body) a (sv_world sv)))"
  unfolding keytab_end_def keytab_finish_def by (rule bf_tail) (erule bf_failed | intro keeps_intro)+

lemma bf_then:
  assumes "bf.keeps m" and "andthen m f sv = (q, sv')"
  obtains (stop) e where "q = Inl e" and "heap (sv_world sv') = heap (sv_world sv)"
    | (go) v sv1 where "heap (sv_world sv1) = heap (sv_world sv)" and "f v sv1 = (q, sv')"
proof (cases "m sv")
  case (Pair r sv1)
  with bf_run [OF assms(1), of sv] have "heap (sv_world sv1) = heap (sv_world sv)" by simp
  with Pair assms(2) stop go show ?thesis by (cases r) (auto simp: andthen_def)
qed

text \<open>The memory a segment needs: none, or an immutable copy and the buffer itself.\<close>

definition allocates :: "bytes \<Rightarrow> service \<Rightarrow> service \<Rightarrow> bool" where
  "allocates bs sv sv' \<longleftrightarrow> heap (sv_world sv') = heap (sv_world sv) @ [Bytes bs, ByteArray bs]"

lemma password_buffer_heap:
  assumes "password_buffer pw sv = (q, sv')"
  shows "case q of Inl e \<Rightarrow> heap (sv_world sv') = heap (sv_world sv)
    | Inr a \<Rightarrow> \<exists>bs. utf8_encode pw = Inr bs \<and> allocates bs sv sv' \<and> a = Suc (length (heap (sv_world sv)))"
  using assms by (auto simp: password_buffer_run new_bytearray_run allocates_def split: sum.splits)

lemma credential_buffers_heap:
  assumes "credential_buffers body su j r sv = (q, sv')"
  shows "case q of Inl e \<Rightarrow> heap (sv_world sv') = heap (sv_world sv)
    | Inr bufs \<Rightarrow> \<exists>bs. credential_bytes body = Inr bs \<and> allocates bs sv sv'
        \<and> bufs = (let a = Suc (length (heap (sv_world sv)))
                  in if rq_password body = None then (None, Some a) else (Some a, None))"
proof (cases "credential_bytes body")
  case (Inr bs)
  with assms credential_buffers_run(1) [of body su j r sv] credential_buffers_run(2) [OF Inr, of su j r sv]
  show ?thesis by (auto simp: allocates_def)
next
  case (Inl e)
  then have q: "q = Inl e" using assms credential_buffers_run(1) [of body su j r sv] by simp
  have "bf.keeps (refused su u j out rid c d h)" for u out rid c d h by (intro keeps_intro)
  note ref = bf_run [OF this]
  have "heap (sv_world (snd (credential_buffers body su j r sv))) = heap (sv_world sv)"
    using Inl by (auto simp: credential_buffers_def credential_bytes_def password_buffer_run
        andthen_def throw_def ref split: option.splits sum.splits)
  with assms q show ?thesis by simp
qed

lemma mint_admit_heap:
  assumes "mint_admit x s req body who sv = (q, sv')"
  shows "case q of Inl e \<Rightarrow> heap (sv_world sv') = heap (sv_world sv)
    | Inr bufs \<Rightarrow> \<exists>bs. credential_bytes body = Inr bs \<and> allocates bs sv sv'
        \<and> bufs = (let a = Suc (length (heap (sv_world sv)))
                  in if rq_password body = None then (None, Some a) else (Some a, None))"
  using assms [unfolded mint_admit_def Let_def]
proof (cases rule: bf_then [OF bf_steps(6), consumes 1, case_names stop go])
  case (go v sv1)
  have "bf.keeps (if rq_password body \<noteq> None then under_limit x u su j r else ret ())" for u su j r
    by (intro keeps_intro)
  note limit = this
  from go(2) show ?thesis
  proof (cases rule: bf_then [OF bf_steps(7), consumes 1, case_names stop go])
    case (go v2 sv2)
    from go(2) show ?thesis
    proof (cases rule: bf_then [OF limit, consumes 1, case_names stop go])
      case (go v3 sv3)
      from credential_buffers_heap [OF go(2)] go(1) \<open>heap (sv_world sv2) = heap (sv_world sv1)\<close>
        \<open>heap (sv_world sv1) = heap (sv_world sv)\<close>
      show ?thesis by (cases q) (simp_all add: allocates_def Let_def)
    qed (use go(1) \<open>heap (sv_world sv1) = heap (sv_world sv)\<close> in simp)
  qed (use go(1) in simp)
qed simp

lemma keytab_admit_heap:
  assumes "keytab_admit x req body who sv = (q, sv')"
  shows "case q of Inl e \<Rightarrow> heap (sv_world sv') = heap (sv_world sv)
    | Inr a \<Rightarrow> \<exists>bs. utf8_encode (kr_password body) = Inr bs \<and> allocates bs sv sv'
        \<and> a = Suc (length (heap (sv_world sv)))"
  using assms [unfolded keytab_admit_def Let_def]
proof (cases rule: bf_then [OF bf_steps(6), consumes 1, case_names stop go])
  case (go v sv1)
  from go(2) show ?thesis
  proof (cases rule: bf_then [OF bf_steps(8), consumes 1, case_names stop go])
    case (go v2 sv2)
    from password_buffer_heap [OF go(2)] go(1) \<open>heap (sv_world sv1) = heap (sv_world sv)\<close>
    show ?thesis by (cases q) (simp_all add: allocates_def)
  qed (use go(1) in simp)
qed simp

section \<open>Who holds which buffer\<close>

text \<open>The buffer a task holds, and the credential of its request that belongs in it.\<close>

fun holding :: "task \<Rightarrow> (nat \<times> bytes) option" where
  "holding (Verified c who) = None"
| "holding (Minting x req body who bufs) =
     (case credential_bytes body of
        Inl e \<Rightarrow> None
      | Inr bs \<Rightarrow> map_option (\<lambda>a. (a, bs)) (case fst bufs of None \<Rightarrow> snd bufs | Some a \<Rightarrow> Some a))"
| "holding (Renewing x req b64 who bs) = None"
| "holding (Keytabbing x req body who a) =
     (case utf8_encode (kr_password body) of Inl e \<Rightarrow> None | Inr bs \<Rightarrow> Some (a, bs))"

fun holds_ok :: "task \<Rightarrow> bool" where
  "holds_ok (Minting x req body who bufs) = (holding (Minting x req body who bufs) \<noteq> None
     \<and> (if rq_password body = None then fst bufs = None else snd bufs = None))"
| "holds_ok (Keytabbing x req body who a) = (holding (Keytabbing x req body who a) \<noteq> None)"
| "holds_ok tk = True"

definition holdings :: "task list \<Rightarrow> (nat \<times> bytes) list" where
  "holdings tks = List.map_filter holding tks"

lemma holdings_simps [simp]:
  "holdings [] = []" "holdings (xs @ ys) = holdings xs @ holdings ys"
  "holdings (tk # ys) = (case holding tk of None \<Rightarrow> holdings ys | Some h \<Rightarrow> h # holdings ys)"
  by (simp_all add: holdings_def map_filter_def split: option.split)

text \<open>A buffer without a secret: an immutable copy, or an array of zeros.\<close>

fun quiet :: "pyobj \<Rightarrow> bool" where
  "quiet (Bytes bs) = True"
| "quiet (ByteArray bs) = (bs = zeros (length bs))"

definition memory_ok :: "pyobj list \<Rightarrow> (nat \<times> bytes) list \<Rightarrow> bool" where
  "memory_ok H hs \<longleftrightarrow> distinct (List.map fst hs)
     \<and> list_all (\<lambda>(a, bs). a < length H \<and> H ! a = ByteArray bs) hs
     \<and> (\<forall>a < length H. a \<in> fst ` set hs \<or> quiet (H ! a))"

lemma memory_grow:
  assumes "memory_ok H hs" and "list_all quiet zs"
  shows "memory_ok (H @ zs) hs"
  using assms unfolding memory_ok_def by (auto simp: list_all_iff nth_append)

lemma memory_fresh: "memory_ok H hs \<Longrightarrow> (a, b) \<in> set hs \<Longrightarrow> a < length H \<and> H ! a = ByteArray b"
  by (auto simp: memory_ok_def list_all_iff)

lemma memory_alloc:
  assumes m: "memory_ok H (hs @ hs')"
  shows "memory_ok (H @ [Bytes bs, ByteArray bs]) (hs @ (Suc (length H), bs) # hs')"
proof -
  have fresh: "a < length H \<and> H ! a = ByteArray b" if "(a, b) \<in> set hs \<or> (a, b) \<in> set hs'" for a b
    using memory_fresh [OF m, of a b] that by simp
  then have "Suc (length H) \<notin> fst ` set hs" "Suc (length H) \<notin> fst ` set hs'" by fastforce+
  with m have "distinct (List.map fst (hs @ (Suc (length H), bs) # hs'))"
    by (auto simp: memory_ok_def)
  moreover have "list_all (\<lambda>(a, b). a < length (H @ [Bytes bs, ByteArray bs])
      \<and> (H @ [Bytes bs, ByteArray bs]) ! a = ByteArray b) (hs @ (Suc (length H), bs) # hs')"
    by (auto simp: list_all_iff nth_append dest: fresh [OF disjI1] fresh [OF disjI2])
  moreover have "quiet ((H @ [Bytes bs, ByteArray bs]) ! a)"
    if "a < length (H @ [Bytes bs, ByteArray bs])" "a \<notin> fst ` set (hs @ (Suc (length H), bs) # hs')" for a
  proof (cases "a < length H")
    case True
    with m that show ?thesis by (auto simp: memory_ok_def nth_append)
  next
    case False
    with that have "a = length H" by auto
    then show ?thesis by simp
  qed
  ultimately show ?thesis unfolding memory_ok_def by blast
qed

lemma memory_zero:
  assumes m: "memory_ok H (hs @ (a, bs) # hs')" and q: "list_all quiet zs"
  shows "memory_ok (H[a := ByteArray (zeros (length bs))] @ zs) (hs @ hs')"
proof (rule memory_grow [OF _ q])
  let ?H = "H[a := ByteArray (zeros (length bs))]"
  have a: "a < length H" using memory_fresh [OF m, of a bs] by simp
  have "a \<notin> fst ` set hs" "a \<notin> fst ` set hs'" using m by (auto simp: memory_ok_def)
  then have other: "b \<noteq> a \<and> b < length H \<and> H ! b = ByteArray c" if "(b, c) \<in> set hs \<or> (b, c) \<in> set hs'" for b c
    using memory_fresh [OF m, of b c] that by force
  have "distinct (List.map fst (hs @ hs'))" using m by (auto simp: memory_ok_def)
  moreover have "list_all (\<lambda>(b, c). b < length ?H \<and> ?H ! b = ByteArray c) (hs @ hs')"
    by (auto simp: list_all_iff dest: other [OF disjI1] other [OF disjI2])
  moreover have "quiet (?H ! b)" if "b < length ?H" "b \<notin> fst ` set (hs @ hs')" for b
    using m that a by (cases "b = a") (auto simp: memory_ok_def zeros_def)
  ultimately show "memory_ok ?H (hs @ hs')" unfolding memory_ok_def by blast
qed

section \<open>What a segment does to the buffers\<close>

text \<open>The buffer of the task that ends, zeroed, and the debris of the operation: nothing that is secret and mutable.\<close>

definition released :: "(nat \<times> bytes) option \<Rightarrow> pyobj list \<Rightarrow> pyobj list \<Rightarrow> bool" where
  "released h H H' \<longleftrightarrow> (\<exists>zs. list_all quiet zs \<and>
     H' = (case h of None \<Rightarrow> H | Some (a, bs) \<Rightarrow> H[a := ByteArray (zeros (length bs))]) @ zs)"

text \<open>The buffer of the task that begins to wait, if it has one.\<close>

definition acquired :: "(nat \<times> bytes) option \<Rightarrow> pyobj list \<Rightarrow> pyobj list \<Rightarrow> bool" where
  "acquired h H H' \<longleftrightarrow> (case h of None \<Rightarrow> H' = H
     | Some (a, bs) \<Rightarrow> a = Suc (length H) \<and> H' = H @ [Bytes bs, ByteArray bs])"

lemma quiet_simps [simp]: "list_all quiet (map Bytes bs)" "quiet (ByteArray (zeros n))" "length (zeros n) = n"
  by (induction bs) (simp_all add: zeros_def)

lemma released_Some:
  "\<exists>bs. H' = H[a := ByteArray (zeros (length pw))] @ zs @ map Bytes bs \<Longrightarrow> list_all quiet zs \<Longrightarrow>
     released (Some (a, pw)) H H'"
  unfolding released_def by (metis (no_types, lifting) list_all_append option.case(2) prod.case quiet_simps(1))

lemma released_None: "\<exists>bs. H' = H @ map Bytes bs \<Longrightarrow> released None H H'"
  unfolding released_def using quiet_simps(1) by fastforce

lemma answer_heap:
  assumes "resume s tk sv = (r, sv')" and "awaiting tk" and "holds_ok tk"
    and buffer: "\<And>a bs. holding tk = Some (a, bs) \<Longrightarrow>
      a < length (heap (sv_world sv)) \<and> heap (sv_world sv) ! a = ByteArray bs"
    and ready: "fault (d_env (deps_of (call_of tk))) (Mkdir (ccache_tmp_root s)) = None"
  shows "released (holding tk) (heap (sv_world sv)) (heap (sv_world sv'))"
proof (cases tk)
  case (Verified c who)
  with assms(2) show ?thesis by simp
next
  case (Minting x req body who bufs)
  then obtain a bs where h: "holding tk = Some (a, bs)" and b: "bufs = (Some a, None) \<or> bufs = (None, Some a)"
    using assms(3) by (cases bufs) (auto split: sum.splits option.splits if_splits)
  have end_heap: "heap (sv_world sv') = heap (snd (mint_ticket (d_env x) (d_krb5 x) s (rq_username body) (fst bufs)
      (lifetime_of s body) (renewable_of s body) (snd bufs) (sv_world sv)))"
    using assms(1) Minting heap_mint_end [of x s req body who bufs sv] by (simp add: answer_def split: prod.splits)
  have ready': "fault (d_env x) (Mkdir (ccache_tmp_root s)) = None" using ready Minting by simp
  note zeroes = mint_ticket_zeroes [OF ready', of a "sv_world sv" bs] buffer [OF h]
  from b show ?thesis
  proof
    assume "bufs = (Some a, None)"
    with zeroes end_heap show ?thesis
      unfolding h by (intro released_Some [where zs = "[ByteArray (zeros (Suc (length bs)))]"]) simp_all
  next
    assume "bufs = (None, Some a)"
    with zeroes end_heap show ?thesis
      unfolding h by (intro released_Some [where zs = "[]"]) simp_all
  qed
next
  case (Renewing x req b64 who bs)
  have "hp.keeps (renew_ticket (d_env x) (d_krb5 x) s bs)"
    unfolding renew_ticket_def by (intro keeps_intro)
  with assms(1) Renewing heap_renew_end [of x s req who bs sv] show ?thesis
    by (auto simp: answer_def heap_frame_def hp.keeps_def intro!: released_None split: prod.splits)
next
  case (Keytabbing x req body who a)
  then obtain bs where h: "holding tk = Some (a, bs)" using assms(3) by (auto split: sum.splits)
  have "heap (sv_world sv') = heap (snd (mint_keytab (d_env x) s (kr_username body) a (sv_world sv)))"
    using assms(1) Keytabbing heap_keytab_end [of x s req body who a sv] by (simp add: answer_def split: prod.splits)
  with buffer [OF h] ready Keytabbing mint_keytab_zeroes [of "d_env x" s a "sv_world sv" bs]
  show ?thesis
    unfolding h by (intro released_Some [where zs = "[ByteArray (zeros (Suc (length bs)))]"]) simp_all
qed

lemma admission_heap:
  assumes "resume s (Verified c who) sv = (r, sv')"
  shows "case r of Inl _ \<Rightarrow> heap (sv_world sv') = heap (sv_world sv)
    | Inr tk \<Rightarrow> holds_ok tk \<and> acquired (holding tk) (heap (sv_world sv)) (heap (sv_world sv'))"
proof (cases c)
  case (Mint x req body)
  with assms have "next_task (Minting x req body who) (mint_admit x s req body who sv) = (r, sv')" by simp
  then show ?thesis
    by (cases rule: next_task_cases) (drule mint_admit_heap, auto simp: allocates_def acquired_def Let_def)+
next
  case (Renew x req b64)
  have "bf.keeps (renew_admit x req b64 who)" by (intro keeps_intro)
  from bf_run [OF this, of sv] assms Renew show ?thesis
    by (auto simp: next_task_def acquired_def split: prod.splits sum.splits)
next
  case (Keytab x req body)
  with assms have "next_task (Keytabbing x req body who) (keytab_admit x req body who sv) = (r, sv')" by simp
  then show ?thesis
    by (cases rule: next_task_cases) (drule keytab_admit_heap, auto simp: allocates_def acquired_def)+
qed

lemma receive_heap:
  assumes "receive s c sv = (r, sv')"
  shows "heap (sv_world sv') = heap (sv_world sv) \<and> (\<forall>tk. r = Inr tk \<longrightarrow> holds_ok tk \<and> holding tk = None)"
proof -
  obtain req u where "next_task (Verified c) (token_segment (deps_of c) s req u sv) = (r, sv')"
    using receive_token [of s c sv] assms by auto
  moreover have "bf.keeps (token_segment (deps_of c) s req u)" by (intro keeps_intro)
  ultimately show ?thesis
    using bf_run [of "token_segment (deps_of c) s req u" sv] by (auto simp: next_task_def split: prod.splits sum.splits)
qed

section \<open>Every run\<close>

definition memory_owned :: "system \<Rightarrow> bool" where
  "memory_owned y \<longleftrightarrow> list_all holds_ok (sys_tasks y)
     \<and> memory_ok (heap (sv_world (sys_service y))) (holdings (sys_tasks y))"

text \<open>The staging root can be created for every call received.\<close>

definition staging_ready :: "settings \<Rightarrow> system \<Rightarrow> bool" where
  "staging_ready s y \<longleftrightarrow>
     list_all (\<lambda>c. fault (d_env (deps_of c)) (Mkdir (ccache_tmp_root s)) = None) (received y)"

lemma staging_before: "staging_ready s y' \<Longrightarrow> set (received y) \<subseteq> set (received y') \<Longrightarrow> staging_ready s y"
  by (auto simp: staging_ready_def list_all_iff)

lemma received_step: "sys_step s k y y' \<Longrightarrow> tasks_ok y \<Longrightarrow> set (received y) \<subseteq> set (received y')"
proof (induction rule: sys_step.cases)
  case (pass d y)
  then show ?case by (simp add: received_def)
next
  case (receive c y)
  then show ?case by (auto simp: received_def)
next
  case (resume z xs tk ys z')
  obtain r sv' where r: "resume s tk (sys_service z) = (r, sv')" by (cases "resume s tk (sys_service z)")
  have "task_ok tk" using resume by (simp add: tasks_ok_def)
  with segment_call [OF r] resume show ?case by (cases r) (auto simp: received_def r)
qed

lemma memory_released:
  assumes "memory_ok H (hs @ (case h of None \<Rightarrow> [] | Some p \<Rightarrow> [p]) @ hs')" and "released h H H'"
  shows "memory_ok H' (hs @ hs')"
  using assms memory_grow memory_zero by (auto simp: released_def split: option.splits)

lemma memory_acquired:
  assumes "memory_ok H (hs @ hs')" and "acquired h H H'"
  shows "memory_ok H' (hs @ (case h of None \<Rightarrow> [] | Some p \<Rightarrow> [p]) @ hs')"
  using assms memory_alloc by (auto simp: acquired_def split: option.splits)

lemma holdings_task:
  "holdings (tk # ys) = (case holding tk of None \<Rightarrow> [] | Some p \<Rightarrow> [p]) @ holdings ys"
  by (simp split: option.split)

lemma answer_only: "resume s tk sv = (r, sv') \<Longrightarrow> awaiting tk \<Longrightarrow> \<exists>a. r = Inl a"
  by (cases tk) (auto simp: answer_def split: prod.splits)

lemma memory_step:
  assumes "sys_step s k y y'" and "staging_ready s y" and "memory_owned y"
  shows "memory_owned y'"
  using assms
proof (induction rule: sys_step.cases)
  case (pass d y)
  then show ?case by (simp add: memory_owned_def)
next
  case (receive c y)
  obtain r sv' where r: "receive s c (sys_service y) = (r, sv')" by (cases "receive s c (sys_service y)")
  from receive_heap [OF r] receive show ?case
    by (cases r) (simp_all add: memory_owned_def r)
next
  case (resume z xs tk ys z')
  let ?H = "heap (sv_world (sys_service z))"
  obtain r sv' where r: "resume s tk (sys_service z) = (r, sv')" by (cases "resume s tk (sys_service z)")
  have inv: "staging_ready s z" "memory_owned z" using resume(1,7,8) by simp_all
  have own: "list_all holds_ok xs" "holds_ok tk" "list_all holds_ok ys"
    and mem: "memory_ok ?H (holdings xs @ (case holding tk of None \<Rightarrow> [] | Some p \<Rightarrow> [p]) @ holdings ys)"
    using resume(3) inv(2) by (simp_all add: memory_owned_def holdings_task del: holdings_simps(3))
  show ?case
  proof (cases "awaiting tk")
    case True
    then obtain a where a: "r = Inl a" using answer_only [OF r] by blast
    have "fault (d_env (deps_of (call_of tk))) (Mkdir (ccache_tmp_root s)) = None"
      using resume(3) inv(1) by (simp add: staging_ready_def received_def)
    moreover have "b < length ?H \<and> ?H ! b = ByteArray bs" if "holding tk = Some (b, bs)" for b bs
      using memory_fresh [OF mem, of b bs] that by simp
    ultimately have "released (holding tk) ?H (heap (sv_world sv'))"
      using answer_heap [OF r True own(2)] by blast
    from memory_released [OF mem this] own resume(2,5) show ?thesis
      by (simp add: memory_owned_def r a)
  next
    case False
    then obtain c who where tk: "tk = Verified c who" by (cases tk) auto
    with mem have mem': "memory_ok ?H (holdings xs @ holdings ys)" by simp
    note adm = admission_heap [OF r [unfolded tk]]
    show ?thesis
    proof (cases r)
      case (Inl a)
      with adm mem' own resume(2,5) show ?thesis by (simp add: memory_owned_def r)
    next
      case (Inr tk')
      with adm have "holds_ok tk'" and acq: "acquired (holding tk') ?H (heap (sv_world sv'))" by simp_all
      with memory_acquired [OF mem' acq] own resume(2,5) Inr show ?thesis
        by (simp add: memory_owned_def r holdings_task del: holdings_simps(3))
    qed
  qed
qed

lemma memory_run:
  assumes "sys_reachable s k y0 y" and "staging_ready s y" and "tasks_ok y0" and "memory_owned y0"
  shows "memory_owned y"
  using assms
proof induction
  case (step y y')
  then have "tasks_ok y" using sys_gate_run by blast
  with received_step [OF step.hyps(2)] staging_before [OF step.prems(1)] have "staging_ready s y" by blast
  with step memory_step show ?case by blast
qed simp



end
