(* ===== verification/Calendar.thy ===== *)
theory Calendar
  imports Py_Datetime
begin

text \<open>
  The calendar computation against its inverse, CPython's \<open>_ymd2ord\<close>: every instant the service can
  print is a valid civil date and time, and its text determines the instant.
\<close>

definition leap_year :: "int \<Rightarrow> bool" where
  "leap_year y \<longleftrightarrow> 4 dvd y \<and> (\<not> 100 dvd y \<or> 400 dvd y)"

definition month_length :: "bool \<Rightarrow> int \<Rightarrow> int" where
  "month_length leap m = (if m = 2 \<and> leap then 29 else days_in_month ! nat m)"

definition days_before :: "bool \<Rightarrow> int \<Rightarrow> int" where
  "days_before leap m = days_before_month ! nat m + (if 2 < m \<and> leap then 1 else 0)"

definition days_before_year :: "int \<Rightarrow> int" where
  "days_before_year y = (y - 1) * 365 + (y - 1) div 4 - (y - 1) div 100 + (y - 1) div 400"

definition ymd2ord :: "int \<Rightarrow> int \<Rightarrow> int \<Rightarrow> int" where
  "ymd2ord y m d = days_before_year y + days_before (leap_year y) m + d"

definition valid_date :: "int \<Rightarrow> int \<Rightarrow> int \<Rightarrow> bool" where
  "valid_date y m d \<longleftrightarrow> 1 \<le> m \<and> m \<le> 12 \<and> 1 \<le> d \<and> d \<le> month_length (leap_year y) m"

definition day_ok :: "bool \<Rightarrow> int \<Rightarrow> bool" where
  "day_ok leap n = (case month_day leap n of (m, d) \<Rightarrow>
     1 \<le> m \<and> m \<le> 12 \<and> 1 \<le> d \<and> d \<le> month_length leap m \<and> days_before leap m + d = n + 1)"

lemma day_ok_table: "list_all (\<lambda>n. day_ok True n \<and> day_ok False n) [0..364]"
  by code_simp

lemma day_ok: "0 \<le> n \<Longrightarrow> n \<le> 364 \<Longrightarrow> day_ok leap n"
  using day_ok_table by (cases leap) (auto simp: list_all_iff)

text \<open>A year by its place in the cycles of 400, 100 and 4 years.\<close>

lemma div_split: "0 \<le> r \<Longrightarrow> r < k \<Longrightarrow> (k * q + r) div k = q" for k q r :: int
  by simp

lemma dvd_split:
  fixes k q r :: int
  assumes "0 < r" and "r \<le> k"
  shows "k dvd k * q + r \<longleftrightarrow> r = k"
proof -
  have "k dvd k * q + r \<longleftrightarrow> k dvd r" by (simp add: dvd_add_right_iff)
  with assms show ?thesis by (auto dest: zdvd_imp_le)
qed

lemma cycle_year:
  fixes a b c d :: int
  assumes "0 \<le> b" "b \<le> 3" "0 \<le> c" "c \<le> 24" "0 \<le> d" "d \<le> 3"
  defines "y \<equiv> 400 * a + 100 * b + 4 * c + d + 1"
  shows "days_before_year y = 146097 * a + 36524 * b + 1461 * c + 365 * d"
    and "leap_year y \<longleftrightarrow> d = 3 \<and> (c \<noteq> 24 \<or> b = 3)"
proof -
  have y: "y - 1 = 4 * (100 * a + 25 * b + c) + d" "y - 1 = 100 * (4 * a + b) + (4 * c + d)"
    "y - 1 = 400 * a + (100 * b + 4 * c + d)"
    by (simp_all add: y_def)
  have "(y - 1) div 4 = 100 * a + 25 * b + c" unfolding y(1) by (rule div_split) (use assms in simp_all)
  moreover have "(y - 1) div 100 = 4 * a + b" unfolding y(2) by (rule div_split) (use assms in simp_all)
  moreover have "(y - 1) div 400 = a" unfolding y(3) by (rule div_split) (use assms in simp_all)
  ultimately show "days_before_year y = 146097 * a + 36524 * b + 1461 * c + 365 * d"
    by (simp add: days_before_year_def y_def)
  have "4 dvd 4 * (100 * a + 25 * b + c) + (d + 1) \<longleftrightarrow> d + 1 = 4"
    by (rule dvd_split) (use assms in simp_all)
  moreover have "100 dvd 100 * (4 * a + b) + (4 * c + d + 1) \<longleftrightarrow> 4 * c + d + 1 = 100"
    by (rule dvd_split) (use assms in simp_all)
  moreover have "400 dvd 400 * a + (100 * b + 4 * c + d + 1) \<longleftrightarrow> 100 * b + 4 * c + d + 1 = 400"
    by (rule dvd_split) (use assms in simp_all)
  moreover have "y = 4 * (100 * a + 25 * b + c) + (d + 1)" "y = 100 * (4 * a + b) + (4 * c + d + 1)"
    "y = 400 * a + (100 * b + 4 * c + d + 1)" by (simp_all add: y_def)
  ultimately have "leap_year y \<longleftrightarrow> d + 1 = 4 \<and> (4 * c + d + 1 \<noteq> 100 \<or> 100 * b + 4 * c + d + 1 = 400)"
    unfolding leap_year_def by metis
  then show "leap_year y \<longleftrightarrow> d = 3 \<and> (c \<noteq> 24 \<or> b = 3)"
    using assms(1-6) by auto
qed

lemma ord2ymd_cycles:
  fixes n :: int
  obtains (last_day) a b c d where "0 \<le> b" "b \<le> 3" "0 \<le> c" "c \<le> 24" "d = 3" "c \<noteq> 24 \<or> b = 3"
      "n = 146097 * a + 36524 * b + 1461 * c + 365 * d + 365"
      "ord2ymd (n + 1) = (400 * a + 100 * b + 4 * c + d + 1, 12, 31)"
    | (usual) a b c d r where "0 \<le> b" "b \<le> 3" "0 \<le> c" "c \<le> 24" "0 \<le> d" "d \<le> 3" "0 \<le> r" "r \<le> 364"
      "n = 146097 * a + 36524 * b + 1461 * c + 365 * d + r"
      "ord2ymd (n + 1) = (400 * a + 100 * b + 4 * c + d + 1, month_day (d = 3 \<and> (c \<noteq> 24 \<or> b = 3)) r)"
proof -
  define a r400 where "a = n div 146097" "r400 = n mod 146097"
  define b r100 where "b = r400 div 36524" "r100 = r400 mod 36524"
  define c r4 where "c = r100 div 1461" "r4 = r100 mod 1461"
  define d r where "d = r4 div 365" "r = r4 mod 365"
  note defs = a_r400_def b_r100_def c_r4_def d_r_def
  have n: "n = 146097 * a + r400" "0 \<le> r400" "r400 < 146097" by (simp_all add: defs)
  have r400: "r400 = 36524 * b + r100" "0 \<le> r100" "r100 < 36524" by (simp_all add: defs)
  have r100: "r100 = 1461 * c + r4" "0 \<le> r4" "r4 < 1461" by (simp_all add: defs)
  have r4: "r4 = 365 * d + r" "0 \<le> r" "r < 365" by (simp_all add: defs)
  have b: "0 \<le> b" "b \<le> 4" using n r400 by linarith+
  have c: "0 \<le> c" "c \<le> 24" using r400 r100 by linarith+
  have d: "0 \<le> d" "d \<le> 4" using r100 r4 by linarith+
  have "ord2ymd (n + 1) = (if d = 4 \<or> b = 4 then (a * 400 + 1 + b * 100 + c * 4 + d - 1, 12, 31)
      else (a * 400 + 1 + b * 100 + c * 4 + d, month_day (d = 3 \<and> (c \<noteq> 24 \<or> b = 3)) r))"
    unfolding ord2ymd_def Let_def add_diff_cancel_right' defs by (rule refl)
  then have run: "ord2ymd (n + 1) = (if d = 4 \<or> b = 4 then (400 * a + 100 * b + 4 * c + d, 12, 31)
      else (400 * a + 100 * b + 4 * c + d + 1, month_day (d = 3 \<and> (c \<noteq> 24 \<or> b = 3)) r))"
    by (simp add: mult.commute)
  consider (century) "b = 4" | (leap) "b \<noteq> 4" "d = 4" | (other) "b \<noteq> 4" "d \<noteq> 4" by blast
  then show ?thesis
  proof cases
    case century
    then have "r100 = 0" using n r400 by linarith
    then have z: "c = 0" "r4 = 0" using r100 c by linarith+
    then have "d = 0" "r = 0" using r4 d by linarith+
    with century z n r400 r100 r4 run show ?thesis
      by (intro last_day [of 3 24 3 a]) simp_all
  next
    case leap
    then have "r = 0" "c \<noteq> 24" using r4 r100 r400 by linarith+
    have b3: "b \<le> 3" using leap(1) b by presburger
    from leap b c n r400 r100 r4 run \<open>r = 0\<close> \<open>c \<noteq> 24\<close> show ?thesis
      by (intro last_day [of b c 3 a, OF _ b3]) simp_all
  next
    case other
    with b c d n r400 r100 r4 run show ?thesis
      by (intro usual [of b c d r a]) simp_all
  qed
qed

text \<open>The computed date is a valid one, and it is the date of the ordinal.\<close>

lemma ord2ymd_exact:
  "case ord2ymd n of (y, m, d) \<Rightarrow> valid_date y m d \<and> ymd2ord y m d = n"
proof -
  have "case ord2ymd (k + 1) of (y, m, d) \<Rightarrow> valid_date y m d \<and> ymd2ord y m d = k + 1" for k
  proof (cases rule: ord2ymd_cycles [of k])
    case (last_day a b c d)
    then show ?thesis
      using cycle_year [of b c d a]
      by (simp add: valid_date_def ymd2ord_def month_length_def days_before_def days_in_month_def days_before_month_def)
  next
    case (usual a b c d r)
    note year = cycle_year [OF usual(1-6), of a]
    obtain m dd where md: "month_day (d = 3 \<and> (c \<noteq> 24 \<or> b = 3)) r = (m, dd)" by fastforce
    note run = usual(10) [unfolded md]
    from day_ok [OF usual(7,8), of "d = 3 \<and> (c \<noteq> 24 \<or> b = 3)"] show ?thesis
      unfolding day_ok_def md run prod.case valid_date_def ymd2ord_def year by (simp add: usual(9))
  qed
  from this [of "n - 1"] show ?thesis by simp
qed

text \<open>The ordinals of \<open>fromtimestamp\<close>'s range lie in the years 1 to 9999.\<close>

lemma ord2ymd_year:
  assumes "1 \<le> n" and "n \<le> 3652059"
  shows "1 \<le> fst (ord2ymd n) \<and> fst (ord2ymd n) \<le> 9999"
proof (cases rule: ord2ymd_cycles [of "n - 1"])
  case (last_day a b c d)
  have "0 \<le> a \<and> a \<le> 24" using assms last_day(1-7) by linarith
  moreover have "400 * a + 100 * b + 4 * c + d \<le> 9998"
    using assms last_day(1-7) calculation by linarith
  moreover have "fst (ord2ymd n) = 400 * a + 100 * b + 4 * c + d + 1" using last_day(8) by simp
  ultimately show ?thesis using last_day(1-5) by simp
next
  case (usual a b c d r)
  have "0 \<le> a \<and> a \<le> 24" using assms usual(1-9) by linarith
  moreover have "400 * a + 100 * b + 4 * c + d \<le> 9998"
    using assms usual(1-9) calculation by linarith
  moreover have "fst (ord2ymd n) = 400 * a + 100 * b + 4 * c + d + 1" using usual(10) by simp
  ultimately show ?thesis using usual(1-6) by simp
qed

section \<open>The text\<close>

text \<open>The instant a reader computes from the fields of the text.\<close>

definition digits_value :: "pystr \<Rightarrow> int" where
  "digits_value ds = foldl (\<lambda>v c. 10 * v + (c - 48)) 0 ds"

definition field :: "nat \<Rightarrow> nat \<Rightarrow> pystr \<Rightarrow> int" where
  "field i n t = digits_value (take n (drop i t))"

definition iso_instant :: "pystr \<Rightarrow> int" where
  "iso_instant t = (ymd2ord (field 0 4 t) (field 5 2 t) (field 8 2 t) - 719163) * 86400
     + field 11 2 t * 3600 + field 14 2 t * 60 + field 17 2 t"

definition iso_text :: "pystr \<Rightarrow> bool" where
  "iso_text t \<longleftrightarrow>
     list_all2 (\<lambda>p c. if p = 100 then 48 \<le> c \<and> c \<le> 57 else c = p) (lit ''dddd-dd-ddTdd:dd:dd+00:00'') t
     \<and> valid_date (field 0 4 t) (field 5 2 t) (field 8 2 t)
     \<and> field 11 2 t < 24 \<and> field 14 2 t < 60 \<and> field 17 2 t < 60"

lemma digits_pad [simp]: "digits_value (pad2 n) = n" "digits_value (pad4 n) = n"
proof -
  show "digits_value (pad2 n) = n" for n
    by (simp add: digits_value_def pad2_def)
  have "10 * (10 * (10 * (m div 10) + m mod 10) + k div 10) + k mod 10 = 100 * m + k" for m k :: int
  proof -
    have "10 * (10 * m + k div 10) + k mod 10 = 100 * m + (10 * (k div 10) + k mod 10)" by simp
    also have "\<dots> = 100 * m + k" by (simp only: mult_div_mod_eq)
    finally show ?thesis by (simp only: mult_div_mod_eq)
  qed
  then show "digits_value (pad4 n) = n"
    by (simp add: digits_value_def pad4_def pad2_def)
qed

lemma field_at: "length a = i \<Longrightarrow> length ds = n \<Longrightarrow> field i n (a @ ds @ rest) = digits_value ds"
  by (simp add: field_def)

lemma pad_length [simp]: "length (pad2 n) = 2" "length (pad4 n) = 4"
  by (simp_all add: pad4_def pad2_def)

lemma isoformat_fields:
  assumes "ord2ymd (t div 86400 + 719163) = (y, m, d)"
  shows "field 0 4 (isoformat (DateTimeUTC t)) = y" "field 5 2 (isoformat (DateTimeUTC t)) = m"
    "field 8 2 (isoformat (DateTimeUTC t)) = d" "field 11 2 (isoformat (DateTimeUTC t)) = t mod 86400 div 3600"
    "field 14 2 (isoformat (DateTimeUTC t)) = t mod 86400 mod 3600 div 60"
    "field 17 2 (isoformat (DateTimeUTC t)) = t mod 86400 mod 60"
proof -
  let ?s = "t mod 86400"
  have iso: "isoformat (DateTimeUTC t) = pad4 y @ lit ''-'' @ pad2 m @ lit ''-'' @ pad2 d @ lit ''T''
       @ pad2 (?s div 3600) @ lit '':'' @ pad2 (?s mod 3600 div 60) @ lit '':'' @ pad2 (?s mod 60) @ lit ''+00:00''"
    by (simp add: isoformat_def Let_def assms)
  show "field 0 4 (isoformat (DateTimeUTC t)) = y"
    unfolding iso using field_at [of "[]"] by simp
  show "field 5 2 (isoformat (DateTimeUTC t)) = m"
    unfolding iso using field_at [of "pad4 y @ lit ''-''" 5 "pad2 m"] by (simp add: lit_def)
  show "field 8 2 (isoformat (DateTimeUTC t)) = d"
    unfolding iso using field_at [of "pad4 y @ lit ''-'' @ pad2 m @ lit ''-''" 8 "pad2 d"] by (simp add: lit_def)
  show "field 11 2 (isoformat (DateTimeUTC t)) = ?s div 3600"
    unfolding iso
    using field_at [of "pad4 y @ lit ''-'' @ pad2 m @ lit ''-'' @ pad2 d @ lit ''T''" 11 "pad2 (?s div 3600)"]
    by (simp add: lit_def)
  show "field 14 2 (isoformat (DateTimeUTC t)) = ?s mod 3600 div 60"
    unfolding iso
    using field_at [of "pad4 y @ lit ''-'' @ pad2 m @ lit ''-'' @ pad2 d @ lit ''T'' @ pad2 (?s div 3600) @ lit '':''"
        14 "pad2 (?s mod 3600 div 60)"] by (simp add: lit_def)
  show "field 17 2 (isoformat (DateTimeUTC t)) = ?s mod 60"
    unfolding iso
    using field_at [of "pad4 y @ lit ''-'' @ pad2 m @ lit ''-'' @ pad2 d @ lit ''T'' @ pad2 (?s div 3600) @ lit '':''
        @ pad2 (?s mod 3600 div 60) @ lit '':''" 17 "pad2 (?s mod 60)"] by (simp add: lit_def)
qed

lemma div_below: "r < k * c \<Longrightarrow> 0 < c \<Longrightarrow> r div c < k" for r k c :: int
proof (rule ccontr)
  assume r: "r < k * c" and c: "0 < c" and "\<not> r div c < k"
  then have "k * c \<le> r div c * c" by (simp add: mult_right_mono)
  moreover have "r div c * c \<le> r"
    using pos_mod_sign [OF c, of r] div_mult_mod_eq [of r c] by linarith
  ultimately show False using r by linarith
qed

definition is_pad2 :: "int \<Rightarrow> bool" where
  "is_pad2 n \<longleftrightarrow> 0 \<le> n \<and> n < 100"

lemma pad2_digits: "is_pad2 n \<Longrightarrow> 0 \<le> n div 10 \<and> n div 10 \<le> 9 \<and> 0 \<le> n mod 10 \<and> n mod 10 \<le> 9"
  using div_below [of n 10 10] pos_mod_bound [of 10 n] by (simp add: is_pad2_def pos_imp_zdiv_nonneg_iff)

lemma iso_shape:
  assumes "is_pad2 c" "is_pad2 y" "is_pad2 m" "is_pad2 d" "is_pad2 h" "is_pad2 i" "is_pad2 s"
  shows "list_all2 (\<lambda>p c. if p = 100 then 48 \<le> c \<and> c \<le> 57 else c = p) (lit ''dddd-dd-ddTdd:dd:dd+00:00'')
    ((pad2 c @ pad2 y) @ lit ''-'' @ pad2 m @ lit ''-'' @ pad2 d @ lit ''T'' @ pad2 h @ lit '':'' @ pad2 i
       @ lit '':'' @ pad2 s @ lit ''+00:00'')"
  using assms [THEN pad2_digits] by (simp add: lit_def pad2_def)

lemma month_length_31: "1 \<le> m \<Longrightarrow> m \<le> 12 \<Longrightarrow> month_length leap m \<le> 31"
proof -
  assume "1 \<le> m" "m \<le> 12"
  then have "m = 1 \<or> m = 2 \<or> m = 3 \<or> m = 4 \<or> m = 5 \<or> m = 6 \<or> m = 7 \<or> m = 8 \<or> m = 9 \<or> m = 10 \<or> m = 11 \<or> m = 12"
    by presburger
  then show ?thesis by (elim disjE) (simp_all add: month_length_def days_in_month_def)
qed

lemma instant_sum:
  "t = q * 86400 + r \<Longrightarrow> h * 3600 + m * 60 + s = r \<Longrightarrow>
     (q + 719163 - 719163) * 86400 + h * 3600 + m * 60 + s = t" for t q r h m s :: int
  by simp

text \<open>Whatever \<open>fromtimestamp\<close> accepts prints as a date of the calendar, and reads back as itself.\<close>

lemma isoformat_exact:
  assumes "fromtimestamp_utc t = Inr d"
  shows "iso_text (isoformat d)" and "iso_instant (isoformat d) = t"
proof -
  let ?n = "t div 86400 + 719163" and ?s = "t mod 86400"
  have d: "d = DateTimeUTC t" and t: "-62135596800 \<le> t" "t \<le> 253402300799"
    using assms by (auto simp: fromtimestamp_utc_def split: if_splits)
  obtain y m dd where ymd: "ord2ymd ?n = (y, m, dd)" by (cases "ord2ymd ?n")
  note fields = isoformat_fields [OF ymd]
  have day: "t = t div 86400 * 86400 + ?s" "0 \<le> ?s" "?s < 86400" by simp_all
  then have n: "1 \<le> ?n" "?n \<le> 3652059" using t by linarith+
  have date: "valid_date y m dd" "ymd2ord y m dd = ?n" using ord2ymd_exact [of ?n] ymd by simp_all
  have y: "1 \<le> y" "y \<le> 9999" using ord2ymd_year [OF n] ymd by simp_all
  have "?s mod 60 = ?s mod 3600 mod 60" by (simp add: mod_mod_cancel)
  then have time: "?s div 3600 * 3600 + ?s mod 3600 div 60 * 60 + ?s mod 60 = ?s"
    using div_mult_mod_eq [of ?s 3600] div_mult_mod_eq [of "?s mod 3600" 60] by linarith
  show "iso_instant (isoformat d) = t"
    unfolding iso_instant_def d fields date(2) by (rule instant_sum [OF day(1) time])
  have small: "?s div 3600 < 24" "?s mod 3600 div 60 < 60" "?s mod 60 < 60"
    by (rule div_below; simp)+ simp
  have md: "1 \<le> m" "m \<le> 12" "1 \<le> dd" "dd \<le> 31"
    using date(1) month_length_31 [of m] by (auto simp: valid_date_def intro: order_trans)
  have ranges: "is_pad2 (y div 100)" "is_pad2 (y mod 100)" "is_pad2 m" "is_pad2 dd" "is_pad2 (?s div 3600)"
    "is_pad2 (?s mod 3600 div 60)" "is_pad2 (?s mod 60)"
  proof -
    show "is_pad2 (y div 100)" using y div_below [of y 100 100] by (simp add: is_pad2_def pos_imp_zdiv_nonneg_iff)
    show "is_pad2 (y mod 100)" by (simp add: is_pad2_def)
    show "is_pad2 m" "is_pad2 dd" using md by (simp_all add: is_pad2_def)
    show "is_pad2 (?s div 3600)" "is_pad2 (?s mod 3600 div 60)"
      using small(1,2) less_trans [of _ _ "100 :: int"] by (simp_all add: is_pad2_def pos_imp_zdiv_nonneg_iff)
    show "is_pad2 (?s mod 60)" using small(3) pos_mod_sign [of 60 ?s] less_trans [of _ _ "100 :: int"] by (simp add: is_pad2_def)
  qed
  have "list_all2 (\<lambda>p c. if p = 100 then 48 \<le> c \<and> c \<le> 57 else c = p) (lit ''dddd-dd-ddTdd:dd:dd+00:00'')
      (isoformat d)"
    unfolding d isoformat_def Let_def datetime.sel ymd prod.case pad4_def by (rule iso_shape [OF ranges])
  then show "iso_text (isoformat d)"
    using date(1) small unfolding iso_text_def d fields by blast
qed

end
