(* ===== verification/App_Types.thy ===== *)
theory App_Types
  imports App_Replies Calendar
begin

text \<open>
  What a successful answer is made of: the types of its fields, on every path of the endpoints.
\<close>

section \<open>What a step returns when it returns\<close>

definition yields :: "('a \<Rightarrow> bool) \<Rightarrow> ('s, 'a) act \<Rightarrow> bool" where
  "yields P m \<longleftrightarrow> (\<forall>w. case fst (m w) of Inl _ \<Rightarrow> True | Inr v \<Rightarrow> P v)"

named_theorems yields_intro

lemma yieldsD: "yields P m \<Longrightarrow> fst (m w) = Inr v \<Longrightarrow> P v"
  unfolding yields_def by (metis sum.case(2))

lemma yields_throw [yields_intro]: "yields P (throw e)"
  by (simp add: yields_def throw_def)

lemma yields_ret: "P v \<Longrightarrow> yields P (ret v)"
  by (simp add: yields_def ret_def)

lemma yields_from:
  assumes "yields Q m" and "\<And>v. Q v \<Longrightarrow> yields P (f v)"
  shows "yields P (andthen m f)"
  unfolding yields_def
proof
  fix w
  obtain r w1 where m: "m w = (r, w1)" by (cases "m w")
  show "case fst (andthen m f w) of Inl _ \<Rightarrow> True | Inr v \<Rightarrow> P v"
  proof (cases r)
    case (Inr v)
    then have "Q v" using yieldsD [OF assms(1), of w v] m by simp
    with assms(2) have "case fst (f v w1) of Inl _ \<Rightarrow> True | Inr v \<Rightarrow> P v" by (simp add: yields_def)
    with Inr m show ?thesis by (simp add: andthen_def)
  qed (simp add: m andthen_def)
qed

lemma yields_andthen [yields_intro]: "(\<And>v. yields P (f v)) \<Longrightarrow> yields P (andthen m f)"
  by (rule yields_from [of "\<lambda>_. True"]) (simp_all add: yields_def split: sum.split)

lemma yields_finally [yields_intro]: "yields P m \<Longrightarrow> yields P (finally_do m c)"
  by (auto simp: yields_def finally_do_def split: prod.split sum.split) (metis fst_conv sum.case(2))

lemma yields_with_tmpdir [yields_intro]: "(\<And>d. yields P (body d)) \<Longrightarrow> yields P (with_tmpdir env body)"
  unfolding with_tmpdir_def by (intro yields_intro)

lemma yields_cases [yields_intro]:
  "(b \<Longrightarrow> yields P m) \<Longrightarrow> (\<not> b \<Longrightarrow> yields P n) \<Longrightarrow> yields P (if b then m else n)"
  "(\<And>a c. p = (a, c) \<Longrightarrow> yields P (g a c)) \<Longrightarrow> yields P (case p of (a, c) \<Rightarrow> g a c)"
  "yields P m \<Longrightarrow> (\<And>y. x = Some y \<Longrightarrow> yields P (f y)) \<Longrightarrow> yields P (case x of None \<Rightarrow> m | Some y \<Rightarrow> f y)"
  by (simp, cases p, simp, cases x, simp, simp)

lemma yields_nonempty:
  "(bs \<noteq> [] \<Longrightarrow> yields P (f ())) \<Longrightarrow> yields P (andthen (require_nonempty n d t bs) f)"
  by (cases "bs = []") (auto simp: require_nonempty_def andthen_assoc intro: yields_intro)

section \<open>Tickets\<close>

definition utc_time :: "datetime \<Rightarrow> bool" where
  "utc_time d \<longleftrightarrow> fromtimestamp_utc (epoch d) = Inr d"

definition info_typed :: "ccache_info \<Rightarrow> bool" where
  "info_typed i \<longleftrightarrow> utc_time (ci_expires_at i) \<and> (case ci_renew_until i of None \<Rightarrow> True | Some d \<Rightarrow> utc_time d)"

definition ticket_typed :: "minted_ticket \<Rightarrow> bool" where
  "ticket_typed t \<longleftrightarrow> mt_ccache t \<noteq> [] \<and> utc_time (mt_expires_at t)
     \<and> (case mt_renew_until t of None \<Rightarrow> True | Some d \<Rightarrow> utc_time d)"

lemma fromtimestamp_typed: "fromtimestamp_utc t = Inr d \<Longrightarrow> utc_time d"
  by (auto simp: fromtimestamp_utc_def utc_time_def split: if_splits)

lemma ccache_info_typed: "ccache_info_of p realm ts = Inr i \<Longrightarrow> info_typed i"
  by (auto simp: ccache_info_of_def info_typed_def map_sum_def fromtimestamp_typed split: sum.splits if_splits)

lemma read_ccache_typed: "read_ccache lib file = Inr i \<Longrightarrow> info_typed i"
  by (auto simp: read_ccache_def read_ccache_try_def Let_def ccache_info_typed
      split: sum.splits option.splits exn.splits)

lemma yields_parse: "yields info_typed (parse_ccache lib p)"
  by (simp add: yields_def parse_ccache_def read_ccache_typed split: sum.split)

lemma yields_pair:
  "bs \<noteq> [] \<Longrightarrow> yields (\<lambda>(bs, i). bs \<noteq> [] \<and> info_typed i) (andthen (parse_ccache lib p) (\<lambda>i. ret (bs, i)))"
  by (rule yields_from [OF yields_parse]) (auto intro: yields_ret)

lemma yields_mint_ticket: "yields ticket_typed (mint_ticket env lib s u p l r k)"
proof -
  have failed: "yields P (kinit_failed u kt rc err)" for P kt rc err
    unfolding kinit_failed_def Let_def by (intro yields_intro)
  have "yields (\<lambda>(bs, i). bs \<noteq> [] \<and> info_typed i) (mint_in_tmpdir env lib s u l r pl k d)" for pl d
    unfolding mint_in_tmpdir_def mint_from_kinit_def Let_def
    by (intro yields_intro failed yields_nonempty yields_pair)
  then have "yields (\<lambda>(bs, i). bs \<noteq> [] \<and> info_typed i)
      (finally_do (with_tmpdir env (mint_in_tmpdir env lib s u l r pl k)) c)" for pl c
    by (intro yields_intro)
  note inner = yields_from [OF this]
  show ?thesis
    unfolding mint_ticket_def
    by (intro yields_intro inner) (auto intro!: yields_ret simp: ticket_typed_def minted_of_def info_typed_def)
qed

lemma yields_renew_ticket: "yields ticket_typed (renew_ticket env lib s c)"
proof -
  have failed: "yields P (renew_failed rc err)" for P rc err
    unfolding renew_failed_def Let_def by (intro yields_intro)
  have "yields (\<lambda>(bs, i). bs \<noteq> [] \<and> info_typed i) (with_tmpdir env (renew_in_tmpdir env lib s c))"
    unfolding renew_in_tmpdir_def Let_def
    by (intro yields_intro failed yields_nonempty yields_pair)
  note inner = yields_from [OF this]
  show ?thesis
    unfolding renew_ticket_def
    by (intro yields_intro inner) (auto intro!: yields_ret simp: ticket_typed_def minted_of_def info_typed_def)
qed

lemma yields_mint_keytab: "yields (\<lambda>bs. bs \<noteq> []) (mint_keytab env s u a)"
proof -
  have failed: "yields P (cern_get_keytab_failed u rc err)" for P rc err
    unfolding cern_get_keytab_failed_def Let_def by (intro yields_intro)
  show ?thesis
    unfolding mint_keytab_def keytab_in_tmpdir_def Let_def
    by (intro yields_intro failed yields_nonempty yields_ret)
qed

section \<open>Answers\<close>

definition b64_text :: "pystr \<Rightarrow> bool" where
  "b64_text t \<longleftrightarrow> length t mod 4 = 0 \<and> list_all (\<lambda>c. a2b c \<noteq> None \<or> c = 61) t"

lemma b64_quads_text: "list_all is_byte bs \<Longrightarrow> b64_text (b64_quads bs)"
  by (induction bs rule: b64_quads.induct) (simp_all add: b64_text_def a2b_b2a sextets)

lemma b64_quads_Nil: "b64_quads bs = [] \<longleftrightarrow> bs = []"
  by (cases bs rule: b64_quads.cases) simp_all

lemma b64encode_text: "b64_text (b64encode bs)" "b64encode bs = [] \<longleftrightarrow> bs = []"
  by (simp_all add: b64encode_def b64_quads_text uint_is_byte b64_quads_Nil)

definition response_typed :: "mint_response \<Rightarrow> bool" where
  "response_typed r \<longleftrightarrow> rs_ccache_b64 r \<noteq> [] \<and> b64_text (rs_ccache_b64 r) \<and> iso_text (rs_expires_at r)
     \<and> (case rs_renew_until r of None \<Rightarrow> True | Some t \<Rightarrow> iso_text t)"

definition keytab_typed :: "keytab_response \<Rightarrow> bool" where
  "keytab_typed r \<longleftrightarrow> ks_keytab_b64 r \<noteq> [] \<and> b64_text (ks_keytab_b64 r)"

lemma utc_time_text: "utc_time d \<Longrightarrow> iso_text (isoformat d) \<and> iso_instant (isoformat d) = epoch d"
  using isoformat_exact [of "epoch d" d] by (simp add: utc_time_def)

lemma mint_response_typed: "ticket_typed t \<Longrightarrow> response_typed (mint_response_of t)"
  by (auto simp: ticket_typed_def response_typed_def mint_response_of_def b64encode_text utc_time_text
      split: option.split)

lemma reply_typed:
  "(\<And>v. q = Inr v \<Longrightarrow> P (f v)) \<Longrightarrow> case map_sum g f q of Inl _ \<Rightarrow> True | Inr v \<Rightarrow> P v"
  by (cases q) simp_all

lemma yields_mint: "yields response_typed (mint x s req body)"
  unfolding yields_def
proof
  fix sv
  show "case fst (mint x s req body sv) of Inl _ \<Rightarrow> True | Inr r \<Rightarrow> response_typed r"
  proof (cases "mint_refusal x s req body sv")
    case (Some e)
    with mint_replies [of x s req body sv] show ?thesis by simp
  next
    case None
    then obtain p k w where "fst (mint x s req body sv) = mint_reply (fst (mint_ticket (d_env x) (d_krb5 x) s
        (rq_username body) p (lifetime_of s body) (renewable_of s body) k w))"
      using mint_replies [of x s req body sv] by auto
    then show ?thesis
      unfolding mint_reply_def
      by simp (rule reply_typed, rule mint_response_typed, erule yieldsD [OF yields_mint_ticket])
  qed
qed

lemma yields_renew: "yields response_typed (renew x s req b64)"
  unfolding yields_def
proof
  fix sv
  show "case fst (renew x s req b64 sv) of Inl _ \<Rightarrow> True | Inr r \<Rightarrow> response_typed r"
  proof (cases "renew_refused x s req b64 sv")
    case (Some e)
    with renew_replies [of x s req b64 sv] show ?thesis by simp
  next
    case None
    then obtain bs w where "fst (renew x s req b64 sv) = renew_reply (fst (renew_ticket (d_env x) (d_krb5 x) s bs w))"
      using renew_replies [of x s req b64 sv] by auto
    then show ?thesis
      unfolding renew_reply_def
      by simp (rule reply_typed, rule mint_response_typed, erule yieldsD [OF yields_renew_ticket])
  qed
qed

lemma yields_keytab: "yields keytab_typed (keytab_endpoint x s req body)"
  unfolding yields_def
proof
  fix sv
  show "case fst (keytab_endpoint x s req body sv) of Inl _ \<Rightarrow> True | Inr r \<Rightarrow> keytab_typed r"
  proof (cases "keytab_refusal x s req body sv")
    case (Some e)
    with keytab_replies [of x s req body sv] show ?thesis by simp
  next
    case None
    then obtain a w where "fst (keytab_endpoint x s req body sv) =
        keytab_reply s (kr_username body) (fst (mint_keytab (d_env x) s (kr_username body) a w))"
      using keytab_replies [of x s req body sv] by auto
    then show ?thesis
      unfolding keytab_reply_def
      by simp (rule reply_typed, drule yieldsD [OF yields_mint_keytab], simp add: keytab_typed_def b64encode_text)
  qed
qed

text \<open>
  C12: the types of the answers. Whenever \<open>/v1/mint\<close> or \<open>/v1/renew\<close> answers with a response, the
  cache in it is non-empty base64 text (the standard alphabet, whole quads), and its times are
  \<open>YYYY-MM-DDTHH:MM:SS+00:00\<close> texts of dates of the calendar; the keytab in an answer of
  \<open>/v1/keytab\<close> is non-empty base64 text.
\<close>

theorem answers_typed:
  "yields response_typed (mint x s req body) \<and> yields response_typed (renew x s req b64)
   \<and> yields keytab_typed (keytab_endpoint x s req kbody)"
  by (intro conjI yields_mint yields_renew yields_keytab)


end
