(* ===== verification/Jwks_Flight.thy ===== *)
theory Jwks_Flight
  imports Identity_Spec "HOL-Library.Multiset"
begin

text \<open>
  The JWKS cache under concurrent requests. \<open>get_jwks\<close> awaits twice: the lock of its URL and the
  fetch. Here it is cut at those points, with \<open>asyncio.Lock\<close> between the tasks: first come, first
  served, and a released lock is passed to the first waiter, whom no newcomer can overtake.
  Cancellation of a task is not modelled.
\<close>

section \<open>The singletons of the module\<close>

text \<open>\<open>_get_http_client\<close>: the client of the process, made on first use; \<open>fresh\<close> is the new object.\<close>

definition get_http_client :: "'c \<Rightarrow> 'c option \<Rightarrow> 'c \<times> 'c option" where
  "get_http_client fresh http_client =
     (let http_client = (if http_client = None then Some fresh else http_client)
      in (the http_client, http_client))"

text \<open>\<open>_get_jwks_lock\<close>: one lock for each URL and event loop; \<open>fresh\<close> is the new lock.\<close>

definition get_jwks_lock ::
    "'l \<Rightarrow> 'k \<Rightarrow> (pystr \<rightharpoonup> 'l \<times> 'k) \<Rightarrow> pystr \<Rightarrow> 'k \<times> (pystr \<rightharpoonup> 'l \<times> 'k)" where
  "get_jwks_lock running fresh locks url =
     (case locks url of
        Some (bound, lock) \<Rightarrow>
          if bound \<noteq> running then (fresh, locks(url \<mapsto> (running, fresh))) else (lock, locks)
      | None \<Rightarrow> (fresh, locks(url \<mapsto> (running, fresh))))"

section \<open>The lock\<close>

record async_lock =
  locked :: bool
  waiters :: "nat list"
  woken :: bool

text \<open>\<open>acquire\<close> of the task \<open>i\<close> gets the lock or queues; \<open>release\<close> wakes the first waiter, who takes
  the lock when it runs.\<close>

definition new_lock :: async_lock where
  "new_lock = \<lparr>locked = False, waiters = [], woken = False\<rparr>"

definition lock_acquire :: "nat \<Rightarrow> async_lock \<Rightarrow> bool \<times> async_lock" where
  "lock_acquire i l =
     (if \<not> locked l \<and> waiters l = [] then (True, l\<lparr>locked := True\<rparr>)
      else (False, l\<lparr>waiters := waiters l @ [i]\<rparr>))"

definition lock_release :: "async_lock \<Rightarrow> async_lock" where
  "lock_release l = l\<lparr>locked := False, woken := waiters l \<noteq> []\<rparr>"

definition lock_taken :: "async_lock \<Rightarrow> async_lock" where
  "lock_taken l = l\<lparr>locked := True, waiters := tl (waiters l), woken := False\<rparr>"

section \<open>The segments of get\_jwks\<close>

text \<open>A task that awaits its fetch, with the entry and the reading it took under the lock.\<close>

record jwks_fetch =
  ft_task :: nat
  ft_entry :: "jwks_entry option"
  ft_now :: rat

record flight =
  fl_service :: service
  fl_clock :: rat
  fl_lock :: async_lock
  fl_fetching :: "jwks_fetch list"
  fl_asked :: "nat list"
  fl_answers :: "(nat \<times> (exn + json)) list"
  fl_stored :: "rat list"
  fl_failed :: nat

definition cached :: "settings \<Rightarrow> flight \<Rightarrow> jwks_entry option" where
  "cached s y = sv_jwks (fl_service y) (broker_jwks_url s)"

definition start_flight :: "service \<Rightarrow> rat \<Rightarrow> flight" where
  "start_flight sv t = \<lparr>fl_service = sv, fl_clock = t, fl_lock = new_lock, fl_fetching = [], fl_asked = [],
     fl_answers = [], fl_stored = [], fl_failed = 0\<rparr>"

definition fl_answer :: "nat \<Rightarrow> exn + json \<Rightarrow> flight \<Rightarrow> flight" where
  "fl_answer i r y = y\<lparr>fl_answers := fl_answers y @ [(i, r)]\<rparr>"

text \<open>Under the lock: the entry is read again; a fresh one is served and the lock released.\<close>

definition fl_inside :: "settings \<Rightarrow> nat \<Rightarrow> flight \<Rightarrow> flight" where
  "fl_inside s i y =
     (case fresh_entry s (cached s y) (fl_clock y) of
        Some ks \<Rightarrow> (fl_answer i (Inr ks) y)\<lparr>fl_lock := lock_release (fl_lock y)\<rparr>
      | None \<Rightarrow> y\<lparr>fl_fetching := fl_fetching y
                   @ [\<lparr>ft_task = i, ft_entry = cached s y, ft_now = fl_clock y\<rparr>]\<rparr>)"

text \<open>A new call of \<open>get_jwks\<close>; \<open>d\<close> is the time to the second reading when the lock is free.\<close>

definition fl_ask :: "settings \<Rightarrow> nat \<Rightarrow> rat \<Rightarrow> flight \<Rightarrow> flight" where
  "fl_ask s i d y0 =
     (let y = y0\<lparr>fl_asked := fl_asked y0 @ [i]\<rparr> in
      case fresh_entry s (cached s y) (fl_clock y) of
        Some ks \<Rightarrow> fl_answer i (Inr ks) y
      | None \<Rightarrow>
          (case lock_acquire i (fl_lock y) of
             (True, l) \<Rightarrow> fl_inside s i (y\<lparr>fl_lock := l, fl_clock := fl_clock y + d\<rparr>)
           | (False, l) \<Rightarrow> y\<lparr>fl_lock := l\<rparr>))"

text \<open>The woken waiter runs.\<close>

definition fl_wake :: "settings \<Rightarrow> flight \<Rightarrow> flight" where
  "fl_wake s y = fl_inside s (hd (waiters (fl_lock y))) (y\<lparr>fl_lock := lock_taken (fl_lock y)\<rparr>)"

text \<open>The awaited fetch ends: the rest of the body, and the lock is released whatever it does.\<close>

definition jwks_refresh :: "http_lib \<Rightarrow> settings \<Rightarrow> jwks_entry option \<Rightarrow> rat \<Rightarrow> json call" where
  "jwks_refresh http s entry now =
     (let url = broker_jwks_url s
      in try_else (on_world (fetch_jwks http url)) (serve_stale url entry) (store_jwks url now))"

definition fl_fetched :: "http_lib \<Rightarrow> settings \<Rightarrow> jwks_fetch list \<Rightarrow> jwks_fetch \<Rightarrow> jwks_fetch list \<Rightarrow> flight \<Rightarrow> flight" where
  "fl_fetched http s xs ft ys y =
     (case jwks_refresh http s (ft_entry ft) (ft_now ft) (fl_service y) of
        (r, sv) \<Rightarrow> (fl_answer (ft_task ft) r y)\<lparr>fl_service := sv, fl_fetching := xs @ ys,
          fl_lock := lock_release (fl_lock y),
          fl_stored := fl_stored y @ (case fetch_try http (broker_jwks_url s) of Inr _ \<Rightarrow> [ft_now ft] | Inl _ \<Rightarrow> []),
          fl_failed := fl_failed y + (case fetch_try http (broker_jwks_url s) of Inr _ \<Rightarrow> 0 | Inl _ \<Rightarrow> 1)\<rparr>)"

text \<open>The tasks of \<open>get_jwks\<close> that are under way move by \<open>flight_move\<close>; besides, time passes, new calls
  arrive, and the rest of the service runs.\<close>

inductive flight_move :: "settings \<Rightarrow> flight \<Rightarrow> flight \<Rightarrow> bool" for s :: settings where
  wake: "woken (fl_lock y) \<Longrightarrow> flight_move s y (fl_wake s y)"
| fetched: "fl_fetching y = xs @ ft # ys \<Longrightarrow> flight_move s y (fl_fetched http s xs ft ys y)"

inductive flight_step :: "settings \<Rightarrow> flight \<Rightarrow> flight \<Rightarrow> bool" for s :: settings where
  move: "flight_move s y y' \<Longrightarrow> flight_step s y y'"
| tick: "0 \<le> d \<Longrightarrow> flight_step s y (y\<lparr>fl_clock := fl_clock y + d\<rparr>)"
| ask: "0 \<le> d \<Longrightarrow> flight_step s y (fl_ask s i d y)"
| elsewhere: "sv_jwks sv = sv_jwks (fl_service y) \<Longrightarrow> flight_step s y (y\<lparr>fl_service := sv\<rparr>)"

inductive flight_reachable :: "settings \<Rightarrow> flight \<Rightarrow> flight \<Rightarrow> bool" for s y0 where
  start: "flight_reachable s y0 y0"
| step: "flight_reachable s y0 y \<Longrightarrow> flight_step s y y' \<Longrightarrow> flight_reachable s y0 y'"

section \<open>The invariant\<close>

definition lock_ok :: "async_lock \<Rightarrow> bool" where
  "lock_ok l \<longleftrightarrow> (woken l \<longleftrightarrow> \<not> locked l \<and> waiters l \<noteq> [])"

definition fetch_ok :: "settings \<Rightarrow> flight \<Rightarrow> jwks_fetch \<Rightarrow> bool" where
  "fetch_ok s y ft \<longleftrightarrow> ft_entry ft = cached s y \<and> ft_now ft \<le> fl_clock y
     \<and> fresh_entry s (ft_entry ft) (ft_now ft) = None"

definition flight_ok :: "settings \<Rightarrow> flight \<Rightarrow> bool" where
  "flight_ok s y \<longleftrightarrow> lock_ok (fl_lock y)
     \<and> length (fl_fetching y) = (if locked (fl_lock y) then 1 else 0)
     \<and> list_all (fetch_ok s y) (fl_fetching y)"

lemma release_ok [simp]: "lock_ok (lock_release l)" "\<not> locked (lock_release l)"
  by (simp_all add: lock_ok_def lock_release_def)

lemma taken_ok [simp]: "lock_ok (lock_taken l)" "locked (lock_taken l)"
  by (simp_all add: lock_ok_def lock_taken_def)

lemma fl_answer_simps [simp]:
  "fl_lock (fl_answer i r y) = fl_lock y" "fl_fetching (fl_answer i r y) = fl_fetching y"
  "fl_service (fl_answer i r y) = fl_service y" "fl_clock (fl_answer i r y) = fl_clock y"
  "fl_stored (fl_answer i r y) = fl_stored y" "fl_asked (fl_answer i r y) = fl_asked y"
  "fl_failed (fl_answer i r y) = fl_failed y"
  "cached s (fl_answer i r y) = cached s y"
  by (simp_all add: fl_answer_def cached_def)

lemma inside_ok:
  assumes "locked (fl_lock y)" and "lock_ok (fl_lock y)" and "fl_fetching y = []"
  shows "flight_ok s (fl_inside s i y)"
  using assms by (simp add: fl_inside_def flight_ok_def fetch_ok_def cached_def split: option.split)

lemma fresh_entry_None:
  "fresh_entry s entry now = None \<longleftrightarrow>
     (case entry of None \<Rightarrow> True | Some en \<Rightarrow> of_int (jwks_cache_ttl_seconds s) < now - fetched_at en)"
  by (auto simp: fresh_entry_def split: option.split)

lemma stale_later: "fresh_entry s entry now = None \<Longrightarrow> now \<le> now' \<Longrightarrow> fresh_entry s entry now' = None"
  by (auto simp: fresh_entry_None split: option.splits)

lemma refresh_cache:
  "sv_jwks (snd (jwks_refresh http s entry now sv)) =
     (case fetch_try http (broker_jwks_url s) of
        Inr ks \<Rightarrow> (sv_jwks sv)(broker_jwks_url s \<mapsto> \<lparr>keys = ks, fetched_at = now\<rparr>)
      | Inl _ \<Rightarrow> sv_jwks sv)"
proof (cases "fetch_try http (broker_jwks_url s)")
  case (Inl e)
  then show ?thesis
    by (cases entry) (simp_all add: jwks_refresh_def Let_def try_else_def on_world_def fetch_jwks_run
        serve_stale_def andthen_def ret_def log_op_def)
next
  case (Inr ks)
  then show ?thesis
    by (cases "py_len ks") (simp_all add: jwks_refresh_def Let_def try_else_def on_world_def fetch_jwks_run
        store_jwks_def cache_put_def andthen_def ret_def throw_def log_op_def)
qed

lemma fetched_simps [simp]:
  "fl_lock (fl_fetched http s xs ft ys y) = lock_release (fl_lock y)"
  "fl_fetching (fl_fetched http s xs ft ys y) = xs @ ys"
  "fl_clock (fl_fetched http s xs ft ys y) = fl_clock y" "fl_asked (fl_fetched http s xs ft ys y) = fl_asked y"
  "fl_answers (fl_fetched http s xs ft ys y) = fl_answers y
     @ [(ft_task ft, fst (jwks_refresh http s (ft_entry ft) (ft_now ft) (fl_service y)))]"
  "fl_service (fl_fetched http s xs ft ys y) = snd (jwks_refresh http s (ft_entry ft) (ft_now ft) (fl_service y))"
  by (simp_all add: fl_fetched_def fl_answer_def split_beta)

lemma fl_ask_cases:
  obtains (fresh) ks where "fresh_entry s (cached s y) (fl_clock y) = Some ks"
      and "fl_ask s i d y = fl_answer i (Inr ks) (y\<lparr>fl_asked := fl_asked y @ [i]\<rparr>)"
    | (enter) "fresh_entry s (cached s y) (fl_clock y) = None" and "\<not> locked (fl_lock y)"
      and "waiters (fl_lock y) = []"
      and "fl_ask s i d y = fl_inside s i (y\<lparr>fl_asked := fl_asked y @ [i],
             fl_lock := (fl_lock y)\<lparr>locked := True\<rparr>, fl_clock := fl_clock y + d\<rparr>)"
    | (queue) "fresh_entry s (cached s y) (fl_clock y) = None"
      and "locked (fl_lock y) \<or> waiters (fl_lock y) \<noteq> []"
      and "fl_ask s i d y = y\<lparr>fl_asked := fl_asked y @ [i],
             fl_lock := (fl_lock y)\<lparr>waiters := waiters (fl_lock y) @ [i]\<rparr>\<rparr>"
proof (cases "fresh_entry s (cached s y) (fl_clock y)")
  case None
  then show ?thesis
    using enter queue
    by (cases "\<not> locked (fl_lock y) \<and> waiters (fl_lock y) = []")
      (auto simp: fl_ask_def Let_def lock_acquire_def cached_def)
next
  case (Some ks)
  with fresh show ?thesis by (simp add: fl_ask_def Let_def cached_def)
qed

lemma fetch_ok_cong:
  "fl_service y' = fl_service y \<Longrightarrow> fl_clock y' = fl_clock y \<Longrightarrow> fetch_ok s y' = fetch_ok s y"
  by (simp add: fetch_ok_def cached_def fun_eq_iff)

lemma flight_ok_ask:
  assumes ok: "flight_ok s y"
  shows "flight_ok s (fl_ask s i d y)"
proof (cases rule: fl_ask_cases [of s y i d])
  case (fresh ks)
  have "fetch_ok s (fl_ask s i d y) = fetch_ok s y"
    by (rule fetch_ok_cong) (simp_all add: fresh(2))
  with ok show ?thesis by (simp add: flight_ok_def fresh(2))
next
  case enter
  with ok have "fl_fetching y = []" "lock_ok (fl_lock y)" by (simp_all add: flight_ok_def)
  with enter show ?thesis by (simp add: inside_ok lock_ok_def)
next
  case queue
  have "fetch_ok s (fl_ask s i d y) = fetch_ok s y"
    by (rule fetch_ok_cong) (simp_all add: queue(3))
  with ok queue show ?thesis by (auto simp: flight_ok_def lock_ok_def)
qed

lemma flight_ok_move:
  assumes "flight_move s y y'" and ok: "flight_ok s y"
  shows "flight_ok s y'"
  using assms(1)
proof cases
  case wake
  then have "\<not> locked (fl_lock y)" "fl_fetching y = []"
    using ok by (auto simp: flight_ok_def lock_ok_def)
  with wake show ?thesis by (simp add: fl_wake_def inside_ok)
next
  case (fetched xs ft ys http)
  then have "xs @ ys = []" using ok by (simp add: flight_ok_def split: if_splits)
  with fetched show ?thesis by (simp add: flight_ok_def)
qed

lemma flight_ok_step: "flight_step s y y' \<Longrightarrow> flight_ok s y \<Longrightarrow> flight_ok s y'"
proof (induction rule: flight_step.induct)
  case (tick d y)
  have "fetch_ok s y ft \<Longrightarrow> fetch_ok s (y\<lparr>fl_clock := fl_clock y + d\<rparr>) ft" for ft
    using tick(1) by (auto simp: fetch_ok_def cached_def)
  with tick(2) show ?case by (auto simp: flight_ok_def list_all_iff)
next
  case (elsewhere sv y)
  have "fetch_ok s (y\<lparr>fl_service := sv\<rparr>) = fetch_ok s y"
    using elsewhere(1) by (simp add: fetch_ok_def cached_def fun_eq_iff)
  with elsewhere(2) show ?case by (simp add: flight_ok_def)
qed (simp_all add: flight_ok_move flight_ok_ask)

lemma flight_ok_start: "flight_ok s (start_flight sv t)"
  by (simp add: flight_ok_def start_flight_def new_lock_def lock_ok_def)

lemma flight_ok_reachable: "flight_reachable s y0 y \<Longrightarrow> flight_ok s y0 \<Longrightarrow> flight_ok s y"
  by (induction rule: flight_reachable.induct) (auto intro: flight_ok_step)

section \<open>Successful refreshes are a time to live apart\<close>

definition ttl_of :: "settings \<Rightarrow> rat" where
  "ttl_of s = of_int (jwks_cache_ttl_seconds s)"

definition spaced_ok :: "settings \<Rightarrow> flight \<Rightarrow> bool" where
  "spaced_ok s y \<longleftrightarrow> (\<forall>i. Suc i < length (fl_stored y) \<longrightarrow> ttl_of s < fl_stored y ! Suc i - fl_stored y ! i)
     \<and> (fl_stored y \<noteq> [] \<longrightarrow> (\<exists>en. cached s y = Some en \<and> fetched_at en = last (fl_stored y)))"

lemma spaced_ok_same:
  "spaced_ok s y \<Longrightarrow> fl_stored y' = fl_stored y \<Longrightarrow> cached s y' = cached s y \<Longrightarrow> spaced_ok s y'"
  by (simp add: spaced_ok_def)

lemma inside_same [simp]:
  "fl_stored (fl_inside s i y) = fl_stored y" "cached s' (fl_inside s i y) = cached s' y"
  "fl_failed (fl_inside s i y) = fl_failed y" "fl_asked (fl_inside s i y) = fl_asked y"
  "fl_service (fl_inside s i y) = fl_service y"
  by (simp_all add: fl_inside_def cached_def split: option.split)

lemma ask_same [simp]:
  "fl_stored (fl_ask s i d y) = fl_stored y" "cached s' (fl_ask s i d y) = cached s' y"
  by (cases rule: fl_ask_cases [of s y i d]; simp add: cached_def)+

lemma spaced_fetched:
  assumes sp: "spaced_ok s y" and ft: "fetch_ok s y ft"
  shows "spaced_ok s (fl_fetched http s xs ft ys y)"
proof (cases "fetch_try http (broker_jwks_url s)")
  case (Inl e)
  then have "cached s (fl_fetched http s xs ft ys y) = cached s y" "fl_stored (fl_fetched http s xs ft ys y) = fl_stored y"
    by (simp_all add: cached_def refresh_cache) (simp add: fl_fetched_def split_beta)
  with sp show ?thesis by (simp add: spaced_ok_same)
next
  case (Inr ks)
  let ?y = "fl_fetched http s xs ft ys y"
  have st: "fl_stored ?y = fl_stored y @ [ft_now ft]" by (simp add: fl_fetched_def split_beta Inr)
  have "cached s ?y = Some \<lparr>keys = ks, fetched_at = ft_now ft\<rparr>" by (simp add: cached_def refresh_cache Inr)
  moreover have "ttl_of s < ft_now ft - fl_stored y ! i" if "Suc i = length (fl_stored y)" for i
  proof -
    have "fl_stored y \<noteq> []" "last (fl_stored y) = fl_stored y ! i"
      using that by (cases "fl_stored y" rule: rev_cases; simp add: nth_append)+
    with sp ft show ?thesis by (auto simp: spaced_ok_def fetch_ok_def fresh_entry_None ttl_of_def)
  qed
  ultimately show ?thesis
    using sp by (auto simp: spaced_ok_def st nth_append less_Suc_eq)
qed

lemma spaced_step: "flight_step s y y' \<Longrightarrow> flight_ok s y \<Longrightarrow> spaced_ok s y \<Longrightarrow> spaced_ok s y'"
proof (induction rule: flight_step.induct)
  case (move y y')
  from move(1) show ?case
  proof cases
    case wake
    with move(3) show ?thesis by (simp add: fl_wake_def spaced_ok_same cached_def)
  next
    case (fetched xs ft ys http)
    then have "fetch_ok s y ft" using move(2) by (simp add: flight_ok_def)
    with fetched move(3) show ?thesis by (simp add: spaced_fetched)
  qed
next
  case (ask d y i)
  then show ?case by (simp add: spaced_ok_same)
qed (auto intro: spaced_ok_same simp: cached_def)

lemma spaced_reachable:
  "flight_reachable s y0 y \<Longrightarrow> flight_ok s y0 \<Longrightarrow> spaced_ok s y0 \<Longrightarrow> spaced_ok s y"
  by (induction rule: flight_reachable.induct) (auto intro: spaced_step flight_ok_reachable)

lemma spaced_sum:
  fixes xs :: "rat list"
  assumes "\<And>i. Suc i < length xs \<Longrightarrow> g < xs ! Suc i - xs ! i" and "i + n < length xs"
  shows "of_nat n * g \<le> xs ! (i + n) - xs ! i"
  using assms(2)
proof (induction n)
  case (Suc n)
  with assms(1) [of "i + n"] show ?case by (simp add: algebra_simps)
qed simp

text \<open>A run with two refreshes.\<close>

definition idle_service :: service where
  "idle_service = \<lparr>sv_world = empty_world, sv_limiter = new_rate_limiter 1 1 1, sv_jwks = Map.empty\<rparr>"

definition up :: "json \<Rightarrow> http_lib" where
  "up ks = \<lparr>http_get = (\<lambda>_. Inr \<lparr>status_error = None, body_json = Inr (JObj [(lit ''keys'', ks)])\<rparr>)\<rparr>"

lemma up_fetch [simp]: "fetch_try (up ks) url = Inr ks"
  by (simp add: fetch_try_def up_def item_keys_def)

lemma refresh_round:
  assumes "flight_reachable s y0 y" and "fl_fetching y = []" and "fl_lock y = new_lock"
    and "fresh_entry s (cached s y) (fl_clock y) = None"
  shows "\<exists>y'. flight_reachable s y0 y' \<and> fl_fetching y' = [] \<and> fl_lock y' = new_lock \<and> fl_clock y' = fl_clock y
    \<and> fl_stored y' = fl_stored y @ [fl_clock y] \<and> cached s y' = Some \<lparr>keys = ks, fetched_at = fl_clock y\<rparr>
    \<and> fl_asked y' = fl_asked y @ [i]"
proof -
  let ?ft = "\<lparr>ft_task = i, ft_entry = cached s y, ft_now = fl_clock y\<rparr>"
  let ?y1 = "fl_ask s i 0 y"
  have y1: "?y1 = y\<lparr>fl_asked := fl_asked y @ [i], fl_lock := new_lock\<lparr>locked := True\<rparr>, fl_fetching := [?ft]\<rparr>"
    by (cases rule: fl_ask_cases [of s y i 0])
      (use assms(2-4) in \<open>simp_all add: fl_inside_def cached_def new_lock_def\<close>)
  let ?y2 = "fl_fetched (up ks) s [] ?ft [] ?y1"
  have "flight_reachable s y0 ?y1"
    by (rule flight_reachable.step [OF assms(1) flight_step.ask]) simp
  then have "flight_reachable s y0 ?y2"
    by (rule flight_reachable.step [OF _ flight_step.move [OF flight_move.fetched]]) (simp add: y1)
  moreover have "fl_stored ?y2 = fl_stored y @ [fl_clock y]" by (simp add: fl_fetched_def split_beta y1)
  moreover have "cached s ?y2 = Some \<lparr>keys = ks, fetched_at = fl_clock y\<rparr>"
    by (simp add: cached_def refresh_cache)
  ultimately show ?thesis
    by (intro exI [of _ ?y2]) (simp add: y1 lock_release_def new_lock_def)
qed

lemma two_refreshes:
  "\<exists>y. flight_reachable default_settings (start_flight idle_service 0) y
     \<and> fl_stored y = [0, 301] \<and> fl_asked y = [0, 1] \<and> fl_lock y = new_lock \<and> fl_fetching y = []"
proof -
  let ?s = default_settings and ?y0 = "start_flight idle_service 0"
  from refresh_round [OF flight_reachable.start, of ?y0 ?s JNull 0]
  obtain y where y: "flight_reachable ?s ?y0 y" "fl_fetching y = []" "fl_lock y = new_lock" "fl_clock y = 0"
    "fl_stored y = [0]" "cached ?s y = Some \<lparr>keys = JNull, fetched_at = 0\<rparr>" "fl_asked y = [0]"
    by (auto simp: start_flight_def idle_service_def cached_def fresh_entry_def)
  let ?y1 = "y\<lparr>fl_clock := fl_clock y + 301\<rparr>"
  have r1: "flight_reachable ?s ?y0 ?y1"
    by (rule flight_reachable.step [OF y(1) flight_step.tick]) simp
  have "fresh_entry ?s (cached ?s ?y1) (fl_clock ?y1) = None"
    using y(4,6) by (simp add: cached_def fresh_entry_def default_settings_def)
  from refresh_round [OF r1 _ _ this, of JNull 1] y show ?thesis by fastforce
qed



section \<open>Everyone is answered\<close>

text \<open>The tasks under way: waiting for the lock or for the fetch.\<close>

definition under_way :: "flight \<Rightarrow> nat list" where
  "under_way y = waiters (fl_lock y) @ List.map ft_task (fl_fetching y)"

definition moves_left :: "flight \<Rightarrow> nat" where
  "moves_left y = 2 * length (waiters (fl_lock y)) + length (fl_fetching y)"

definition conserved :: "flight \<Rightarrow> bool" where
  "conserved y \<longleftrightarrow> mset (fl_asked y) = mset (List.map fst (fl_answers y)) + mset (under_way y)"

lemma inside_tasks:
  "waiters (fl_lock (fl_inside s i y)) = waiters (fl_lock y)"
  "mset (List.map fst (fl_answers (fl_inside s i y))) + mset (List.map ft_task (fl_fetching (fl_inside s i y)))
     = add_mset i (mset (List.map fst (fl_answers y)) + mset (List.map ft_task (fl_fetching y)))"
  "length (fl_fetching (fl_inside s i y)) \<le> Suc (length (fl_fetching y))"
  by (simp_all add: fl_inside_def lock_release_def fl_answer_def split: option.split)

lemma conserved_ask:
  assumes "conserved y"
  shows "conserved (fl_ask s i d y)"
proof (cases rule: fl_ask_cases [of s y i d])
  case (fresh ks)
  with assms show ?thesis by (simp add: conserved_def under_way_def fl_answer_def)
next
  case enter
  from inside_tasks [of s i "y\<lparr>fl_asked := fl_asked y @ [i], fl_lock := (fl_lock y)\<lparr>locked := True\<rparr>,
      fl_clock := fl_clock y + d\<rparr>"] enter assms
  show ?thesis by (simp add: conserved_def under_way_def)
next
  case queue
  with assms show ?thesis by (simp add: conserved_def under_way_def)
qed

lemma move_effect:
  assumes "flight_move s y y'" and "flight_ok s y"
  shows "conserved y \<Longrightarrow> conserved y'" and "moves_left y' < moves_left y"
proof -
  from assms(1) have "(conserved y \<longrightarrow> conserved y') \<and> moves_left y' < moves_left y"
  proof cases
    case wake
    then obtain i ws where w: "waiters (fl_lock y) = i # ws"
      using assms(2) by (cases "waiters (fl_lock y)") (simp_all add: flight_ok_def lock_ok_def)
    from inside_tasks [of s i "y\<lparr>fl_lock := lock_taken (fl_lock y)\<rparr>"] w wake show ?thesis
      by (auto simp: conserved_def under_way_def moves_left_def fl_wake_def lock_taken_def)
  next
    case (fetched xs ft ys http)
    then show ?thesis
      by (simp add: conserved_def under_way_def moves_left_def lock_release_def)
  qed
  then show "conserved y \<Longrightarrow> conserved y'" and "moves_left y' < moves_left y" by blast+
qed

lemma move_possible:
  assumes "flight_ok s y" and "under_way y \<noteq> []"
  shows "\<exists>y'. flight_move s y y'"
proof (cases "fl_fetching y")
  case Nil
  then have "woken (fl_lock y)"
    using assms by (auto simp: flight_ok_def lock_ok_def under_way_def split: if_splits)
  then show ?thesis by (blast intro: flight_move.wake)
next
  case (Cons ft fts)
  then show ?thesis
    using flight_move.fetched [of y "[]" ft fts] by auto
qed

lemma moves_keep:
  assumes "(flight_move s ^^ n) y y'" and "flight_ok s y"
  shows "flight_ok s y'" and "n + moves_left y' \<le> moves_left y" and "conserved y \<Longrightarrow> conserved y'"
    and "fl_asked y' = fl_asked y"
proof -
  have "flight_ok s y' \<and> n + moves_left y' \<le> moves_left y \<and> (conserved y \<longrightarrow> conserved y') \<and> fl_asked y' = fl_asked y"
    using assms(1)
  proof (induction n arbitrary: y')
    case 0
    with assms(2) show ?case by simp
  next
    case (Suc n)
    then obtain z where z: "(flight_move s ^^ n) y z" "flight_move s z y'" by (auto elim: relpowp_Suc_E)
    from Suc.IH [OF z(1)] have z_ok: "flight_ok s z" by simp
    have "fl_asked y' = fl_asked z"
      using z(2) by cases (simp_all add: fl_wake_def)
    with Suc.IH [OF z(1)] move_effect [OF z(2) z_ok] flight_ok_move [OF z(2) z_ok] show ?case by auto
  qed
  then show "flight_ok s y'" and "n + moves_left y' \<le> moves_left y" and "conserved y \<Longrightarrow> conserved y'"
    and "fl_asked y' = fl_asked y" by blast+
qed

lemma conserved_step:
  assumes "flight_step s y y'" and "flight_ok s y" and "conserved y"
  shows "conserved y'"
  using assms(1)
proof cases
  case move
  then show ?thesis using move_effect(1) assms(2,3) by blast
next
  case (ask d i)
  then show ?thesis using conserved_ask assms(3) by simp
qed (use assms(3) in \<open>simp_all add: conserved_def under_way_def\<close>)

lemma conserved_reachable:
  "flight_reachable s y0 y \<Longrightarrow> flight_ok s y0 \<Longrightarrow> conserved y0 \<Longrightarrow> conserved y"
  by (induction rule: flight_reachable.induct) (auto intro: conserved_step flight_ok_reachable)

lemma conserved_start: "conserved (start_flight sv t)"
  by (simp add: conserved_def under_way_def start_flight_def new_lock_def)

text \<open>
  C11: no wake-up is lost and nobody waits for ever. In every reachable state, letting the tasks under
  way run ends after at most two moves for each waiter and one for the fetch; and wherever such a run
  cannot go on, every call of \<open>get_jwks\<close> made so far has been answered, exactly once.
\<close>

theorem everyone_answered:
  assumes "flight_reachable s (start_flight sv t) y" and "(flight_move s ^^ n) y y'"
  shows "n \<le> 2 * length (waiters (fl_lock y)) + length (fl_fetching y)
    \<and> ((\<nexists>y''. flight_move s y' y'') \<longrightarrow> mset (List.map fst (fl_answers y')) = mset (fl_asked y))"
proof -
  have ok: "flight_ok s y" and cons: "conserved y"
    using flight_ok_reachable [OF assms(1) flight_ok_start] conserved_reachable [OF assms(1) flight_ok_start conserved_start] .
  note keep = moves_keep [OF assms(2) ok]
  have "mset (List.map fst (fl_answers y')) = mset (fl_asked y)" if "\<nexists>y''. flight_move s y' y''"
    using that move_possible [OF keep(1)] keep(3) [OF cons] keep(4) by (auto simp: conserved_def)
  with keep(2) show ?thesis by (simp add: moves_left_def)
qed

theorem everyone_answered_witness:
  "\<exists>y. flight_reachable default_settings (start_flight idle_service 0) y
     \<and> mset (List.map fst (fl_answers y)) = {#0, 1#}"
proof -
  obtain y where y: "flight_reachable default_settings (start_flight idle_service 0) y"
    "fl_asked y = [0, 1]" "fl_lock y = new_lock" "fl_fetching y = []"
    using two_refreshes by blast
  have "(flight_move default_settings ^^ 0) y y" by simp
  moreover have "\<nexists>y''. flight_move default_settings y y''"
    using y(3,4) by (auto elim!: flight_move.cases simp: new_lock_def)
  ultimately have "mset (List.map fst (fl_answers y)) = {#0, 1#}"
    using everyone_answered [OF y(1)] y(2) by fastforce
  with y(1) show ?thesis by blast
qed

section \<open>Alone, it is get\_jwks\<close>


section \<open>Failing refreshes are not shared\<close>

definition down :: "exn \<Rightarrow> http_lib" where
  "down e = \<lparr>http_get = (\<lambda>_. Inl e)\<rparr>"

lemma down_fetch [simp]: "fetch_try (down e) url = Inl e"
  by (simp add: fetch_try_def down_def)

lemma flight_trans: "flight_reachable s y1 y2 \<Longrightarrow> flight_reachable s y0 y1 \<Longrightarrow> flight_reachable s y0 y2"
  by (induction rule: flight_reachable.induct) (auto intro: flight_reachable.step)

lemma failing_round:
  assumes "fl_fetching y = [ft]" and "cached s y = None" and "woken (fl_lock y) = False"
  shows "\<exists>y'. flight_reachable s y y' \<and> fl_clock y' = fl_clock y + 10 \<and> fl_failed y' = Suc (fl_failed y)
    \<and> fl_asked y' = fl_asked y \<and> cached s y' = None \<and> fl_fetching y' = []
    \<and> waiters (fl_lock y') = waiters (fl_lock y) \<and> woken (fl_lock y') = (waiters (fl_lock y) \<noteq> [])"
proof -
  let ?y1 = "y\<lparr>fl_clock := fl_clock y + 10\<rparr>"
  let ?y2 = "fl_fetched (down (OtherExn [] [])) s [] ft [] ?y1"
  have "flight_reachable s y ?y1"
    by (rule flight_reachable.step [OF flight_reachable.start flight_step.tick]) simp
  then have "flight_reachable s y ?y2"
    by (rule flight_reachable.step [OF _ flight_step.move [OF flight_move.fetched]]) (simp add: assms(1))
  moreover have "fl_failed ?y2 = Suc (fl_failed y)" by (simp add: fl_fetched_def split_beta)
  moreover have "cached s ?y2 = None" using assms(2) by (simp add: cached_def refresh_cache)
  ultimately show ?thesis
    by (intro exI [of _ ?y2]) (simp add: lock_release_def)
qed

lemma failing_wake:
  assumes "fl_fetching y = []" and "cached s y = None" and "waiters (fl_lock y) = i # ws" and "woken (fl_lock y)"
  shows "\<exists>y' ft. flight_reachable s y y' \<and> fl_clock y' = fl_clock y \<and> fl_failed y' = fl_failed y
    \<and> fl_asked y' = fl_asked y \<and> cached s y' = None \<and> fl_fetching y' = [ft]
    \<and> waiters (fl_lock y') = ws \<and> woken (fl_lock y') = False"
proof -
  have "flight_reachable s y (fl_wake s y)"
    by (rule flight_reachable.step [OF flight_reachable.start flight_step.move [OF flight_move.wake [OF assms(4)]]])
  then show ?thesis
    using assms by (intro exI [of _ "fl_wake s y"]) (simp add: fl_wake_def fl_inside_def cached_def fresh_entry_def lock_taken_def)
qed

lemma failing_drain:
  assumes "fl_fetching y = [ft]" and "cached s y = None" and "woken (fl_lock y) = False"
  shows "\<exists>y'. flight_reachable s y y' \<and> fl_clock y' = fl_clock y + of_nat (Suc (length (waiters (fl_lock y)))) * 10
    \<and> fl_failed y' = fl_failed y + Suc (length (waiters (fl_lock y))) \<and> fl_asked y' = fl_asked y \<and> under_way y' = []"
  using assms
proof (induction "length (waiters (fl_lock y))" arbitrary: y ft)
  case 0
  then show ?case using failing_round [of y ft s] by (auto simp: under_way_def)
next
  case (Suc n)
  from failing_round [OF Suc.prems] Suc.hyps(2) obtain y1 where y1: "flight_reachable s y y1"
    "fl_clock y1 = fl_clock y + 10" "fl_failed y1 = Suc (fl_failed y)" "fl_asked y1 = fl_asked y"
    "cached s y1 = None" "fl_fetching y1 = []" "waiters (fl_lock y1) = waiters (fl_lock y)" "woken (fl_lock y1)"
    by (auto simp: Suc_length_conv)
  from Suc.hyps(2) obtain i ws where ws: "waiters (fl_lock y) = i # ws" "length ws = n"
    by (auto simp: Suc_length_conv)
  from failing_wake [OF y1(6,5) _ y1(8)] ws y1(7) obtain y2 ft2 where y2: "flight_reachable s y1 y2"
    "fl_clock y2 = fl_clock y1" "fl_failed y2 = fl_failed y1" "fl_asked y2 = fl_asked y1" "cached s y2 = None"
    "fl_fetching y2 = [ft2]" "waiters (fl_lock y2) = ws" "woken (fl_lock y2) = False" by auto
  from Suc.hyps(1) [OF _ y2(6,5,8)] ws(2) y2(7) obtain y3 where y3: "flight_reachable s y2 y3"
    "fl_clock y3 = fl_clock y2 + of_nat (Suc n) * 10" "fl_failed y3 = fl_failed y2 + Suc n"
    "fl_asked y3 = fl_asked y2" "under_way y3 = []" by auto
  have n: "length (waiters (fl_lock y)) = Suc n" using Suc.hyps(2) by simp
  show ?case
    unfolding n
  proof (intro exI conjI)
    show "flight_reachable s y y3" by (rule flight_trans [OF flight_trans [OF y3(1) y2(1)] y1(1)])
    show "fl_clock y3 = fl_clock y + of_nat (Suc (Suc n)) * 10"
      by (simp add: y3(2) y2(2) y1(2) algebra_simps)
  qed (simp_all add: y3 y2 y1)
qed

lemma failing_asks:
  assumes "sv_jwks sv (broker_jwks_url s) = None"
  shows "\<exists>y ft. flight_reachable s (start_flight sv t) y \<and> fl_asked y = [0..<Suc n] \<and> fl_fetching y = [ft]
    \<and> length (waiters (fl_lock y)) = n \<and> locked (fl_lock y) \<and> woken (fl_lock y) = False
    \<and> cached s y = None \<and> fl_clock y = t \<and> fl_failed y = 0"
proof (induction n)
  case 0
  let ?y = "fl_ask s 0 0 (start_flight sv t)"
  have "flight_reachable s (start_flight sv t) ?y"
    by (rule flight_reachable.step [OF flight_reachable.start flight_step.ask]) simp
  with assms show ?case
    by (intro exI [of _ ?y])
      (simp add: fl_ask_def Let_def start_flight_def new_lock_def lock_acquire_def fl_inside_def cached_def fresh_entry_def)
next
  case (Suc n)
  then obtain y ft where y: "flight_reachable s (start_flight sv t) y" "fl_asked y = [0..<Suc n]" "fl_fetching y = [ft]"
    "length (waiters (fl_lock y)) = n" "locked (fl_lock y)" "woken (fl_lock y) = False"
    "cached s y = None" "fl_clock y = t" "fl_failed y = 0" by blast
  let ?y = "fl_ask s (Suc n) 0 y"
  have ask: "?y = y\<lparr>fl_asked := fl_asked y @ [Suc n], fl_lock := (fl_lock y)\<lparr>waiters := waiters (fl_lock y) @ [Suc n]\<rparr>\<rparr>"
    by (cases rule: fl_ask_cases [of s y "Suc n" 0]) (use y(5,7) in \<open>simp_all add: fresh_entry_def\<close>)
  have "flight_reachable s (start_flight sv t) ?y"
    by (rule flight_reachable.step [OF y(1) flight_step.ask]) simp
  with y ask show ?case
    by (intro exI [of _ ?y] exI [of _ ft]) (simp add: cached_def)
qed


end
