(* ===== verification/App_Probes.thy ===== *)
theory App_Probes
  imports App_Replies
begin

text \<open>
  readyz and what it promises: when it answers 200, and that the keys stay available from then on.
\<close>

section \<open>The readiness answer\<close>

definition not_ready :: "pystr list \<Rightarrow> exn" where
  "not_ready problems = HTTPException 503 (join_with (lit ''; '') problems) []"

text \<open>The problems readyz lists, in order, when the JWKS step gave \<open>r\<close>.\<close>

definition readiness_problems ::
    "settings \<Rightarrow> (pystr \<Rightarrow> pystr option) \<Rightarrow> (pystr \<Rightarrow> bool) \<Rightarrow> exn + json \<Rightarrow> pystr list" where
  "readiness_problems s which can_read r =
     (if which (kinit_bin s) = None then [lit ''kinit binary not found or not executable: '' @ kinit_bin s] else [])
     @ (if can_read (krb5_config s) then [] else [lit ''krb5.conf not readable: '' @ krb5_config s])
     @ (if isl r then [lit ''broker JWKS endpoint unreachable: '' @ broker_jwks_url s] else [])"

lemma readyz_run:
  "readyz x s which can_read sv =
     (let (r, sv1) = get_jwks (d_http x) s (t_jwks x) (t_jwks_locked x) sv;
          problems = readiness_problems s which can_read r
      in (case r of
            Inl e \<Rightarrow> if is_HTTPException e then Inl (not_ready problems) else Inl e
          | Inr _ \<Rightarrow> if problems = [] then Inr [(lit ''status'', lit ''ready'')] else Inl (not_ready problems), sv1))"
  by (auto simp: readyz_def readiness_problems_def not_ready_def Let_def split: prod.split sum.split)


section \<open>Once available, the keys stay available\<close>

lemma jwks_cached:
  assumes "fst (get_jwks http s n0 n1 sv) = Inr ks"
  shows "sv_jwks (snd (get_jwks http s n0 n1 sv)) (broker_jwks_url s) \<noteq> None"
  using assms get_jwks_run [of http s n0 n1 sv]
  by (auto simp: jwks_answer_def jwks_entry_after_def fresh_entry_def split: option.splits sum.splits if_splits)

lemma jwks_with_entry:
  assumes "sv_jwks sv (broker_jwks_url s) \<noteq> None"
  shows "no_http (fst (get_jwks http s n0 n1 sv))"
  using assms
  by (auto simp: get_jwks_run jwks_answer_def py_len_def no_http_def split: option.split sum.split json.split)

lemma readyz_Inr:
  assumes "fst (readyz x s which can_read sv) = Inr v"
  obtains ks where "fst (get_jwks (d_http x) s (t_jwks x) (t_jwks_locked x) sv) = Inr ks"
    and "snd (readyz x s which can_read sv) = snd (get_jwks (d_http x) s (t_jwks x) (t_jwks_locked x) sv)"
  using assms by (auto simp: readyz_run Let_def split: prod.splits sum.splits if_splits)



end
