(* ===== verification/App_Cases.thy ===== *)
theory App_Cases
  imports App_Audit
begin

text \<open>
  Concrete requests, evaluated: the places where an exception escapes the handlers.
\<close>

section \<open>Where exceptions escape\<close>

lemma mint_unreadable_cache_escapes:
  "(case mint (sample_deps sample_jwks (kinit_writes [5, 4]) (failing_lib (Krb5Error (lit ''bad''))))
           default_settings sample_request sample_body sample_service of
      (r, sv) \<Rightarrow> r = Inl (CcacheParseError (lit ''not a readable ccache: bad''))
        \<and> status_of r = 500 \<and> audits sv = [])"
  by code_simp

lemma renew_odd_realm_escapes:
  "(case renew (sample_deps sample_jwks (kinit_writes [5, 4]) odd_realm_lib)
           default_settings sample_request (lit ''BQQ='') sample_service of
      (r, sv) \<Rightarrow> r = Inl (UnicodeErr (lit ''invalid utf-8''))
        \<and> status_of r = 500 \<and> audits sv = [])"
  by code_simp

text \<open>
  A JWKS that lists anything but objects makes \<open>_select_jwk\<close> raise \<open>AttributeError\<close>, which
  \<open>verify_broker_token\<close> does not turn into its 401: every request is an unaudited 500.
\<close>

lemma jwks_non_object_escapes:
  "(case mint (sample_deps (JArr [JStr (lit ''k1'')]) (kinit_writes [5, 4]) (failing_lib (Krb5Error (lit ''bad''))))
           default_settings sample_request sample_body sample_service of
      (r, sv) \<Rightarrow> r = Inl (AttributeErr (lit ''get'')) \<and> status_of r = 500 \<and> audits sv = [])"
  by code_simp


end
