(* ===== verification/Minting_Secrecy.thy ===== *)
theory Minting_Secrecy
  imports Minting_Outcome
begin

text \<open>
  Two runs that differ only in the bytes of a secret. \<open>agree\<close> says that two worlds are the same
  apart from the contents of buffers and what was piped to the children; operations that simulate
  each other keep it and return the same result. With a child that answers both passwords alike,
  nothing else the service does depends on the password: not the log, the files, the command lines
  or the result.
\<close>

definition public :: "world \<Rightarrow> world" where
  "public w = w\<lparr>heap := replicate (length (heap w)) (Bytes []),
     spawned := map (stdin_update (\<lambda>_. None)) (spawned w)\<rparr>"

definition agree :: "world \<Rightarrow> world \<Rightarrow> bool" where
  "agree w w' \<longleftrightarrow> public w = public w'"

definition simulates :: "'a op \<Rightarrow> 'a op \<Rightarrow> bool" where
  "simulates m m' \<longleftrightarrow> (\<forall>w w'. agree w w' \<longrightarrow> fst (m w) = fst (m' w') \<and> agree (snd (m w)) (snd (m' w')))"

lemma agree_iff:
  "agree w w' \<longleftrightarrow> length (heap w) = length (heap w') \<and> files w = files w' \<and> dirs w = dirs w'
     \<and> logged w = logged w'
     \<and> map (stdin_update (\<lambda>_. None)) (spawned w) = map (stdin_update (\<lambda>_. None)) (spawned w')"
proof
  assume "agree w w'"
  then have eq: "public w = public w'" by (simp add: agree_def)
  from arg_cong [OF eq, of heap] have "length (heap w) = length (heap w')"
    by (simp add: public_def replicate_eq_replicate)
  with arg_cong [OF eq, of files] arg_cong [OF eq, of dirs] arg_cong [OF eq, of logged]
    arg_cong [OF eq, of spawned]
  show "length (heap w) = length (heap w') \<and> files w = files w' \<and> dirs w = dirs w'
     \<and> logged w = logged w'
     \<and> map (stdin_update (\<lambda>_. None)) (spawned w) = map (stdin_update (\<lambda>_. None)) (spawned w')"
    by (simp add: public_def)
qed (cases w; cases w'; simp add: agree_def public_def)

lemma agree_refl: "agree w w"
  by (simp add: agree_def)

named_theorems sim

lemma simulatesD:
  "simulates m m' \<Longrightarrow> agree w w' \<Longrightarrow> m w = (r, v) \<Longrightarrow> m' w' = (r', v') \<Longrightarrow> r = r' \<and> agree v v'"
  unfolding simulates_def by (metis fst_conv snd_conv)

lemma sim_ret [sim]: "simulates (ret x) (ret x)"
  by (simp add: simulates_def ret_def)

lemma sim_throw [sim]: "simulates (throw e) (throw e)"
  by (simp add: simulates_def throw_def)

lemma sim_andthen [sim]:
  assumes "simulates m m'" and "\<And>x. simulates (f x) (f' x)"
  shows "simulates (andthen m f) (andthen m' f')"
  unfolding simulates_def
proof (intro allI impI)
  fix w w'
  assume "agree w w'"
  moreover obtain r v where m: "m w = (r, v)" by (cases "m w")
  moreover obtain r' v' where m': "m' w' = (r', v')" by (cases "m' w'")
  ultimately have "r = r'" and v: "agree v v'" using simulatesD [OF assms(1)] by blast+
  note m' = m' [folded this(1)]
  show "fst (andthen m f w) = fst (andthen m' f' w')
      \<and> agree (snd (andthen m f w)) (snd (andthen m' f' w'))"
  proof (cases r)
    case (Inl e)
    with v show ?thesis by (simp add: andthen_def m m')
  next
    case (Inr x)
    with v assms(2) [of x] show ?thesis by (simp add: andthen_def m m' simulates_def)
  qed
qed

lemma sim_catching [sim]:
  assumes "simulates m m'" and "\<And>e k. h e = Some k \<Longrightarrow> simulates k k"
  shows "simulates (catching m h) (catching m' h)"
  unfolding simulates_def
proof (intro allI impI)
  fix w w'
  assume "agree w w'"
  moreover obtain r v where m: "m w = (r, v)" by (cases "m w")
  moreover obtain r' v' where m': "m' w' = (r', v')" by (cases "m' w'")
  ultimately have "r = r'" and v: "agree v v'" using simulatesD [OF assms(1)] by blast+
  note m' = m' [folded this(1)]
  show "fst (catching m h w) = fst (catching m' h w')
      \<and> agree (snd (catching m h w)) (snd (catching m' h w'))"
  proof (cases r)
    case (Inl e)
    show ?thesis
    proof (cases "h e")
      case None
      with Inl v show ?thesis by (simp add: catching_def m m')
    next
      case (Some k)
      with Inl v assms(2) [OF Some] show ?thesis by (simp add: catching_def m m' simulates_def)
    qed
  next
    case (Inr x)
    with v show ?thesis by (simp add: catching_def m m')
  qed
qed

lemma sim_finally [sim]:
  assumes "simulates m m'" and "simulates c c'"
  shows "simulates (finally_do m c) (finally_do m' c')"
  unfolding simulates_def
proof (intro allI impI)
  fix w w'
  assume a: "agree w w'"
  obtain r v where m: "m w = (r, v)" by (cases "m w")
  obtain r' v' where m': "m' w' = (r', v')" by (cases "m' w'")
  obtain q u where c: "c v = (q, u)" by (cases "c v")
  obtain q' u' where c': "c' v' = (q', u')" by (cases "c' v'")
  have r: "r = r'" and v: "agree v v'" using simulatesD [OF assms(1) a m m'] by blast+
  have q: "q = q'" and u: "agree u u'" using simulatesD [OF assms(2) v c c'] by blast+
  show "fst (finally_do m c w) = fst (finally_do m' c' w')
      \<and> agree (snd (finally_do m c w)) (snd (finally_do m' c' w'))"
    using u by (cases q') (simp_all add: finally_do_def m m' c c' r q)
qed

lemma sim_if [sim]:
  "simulates m m' \<Longrightarrow> simulates n n' \<Longrightarrow> simulates (if b then m else n) (if b then m' else n')"
  by simp

lemma sim_option [sim]:
  "simulates m m' \<Longrightarrow> (\<And>y. simulates (n y) (n' y)) \<Longrightarrow>
     simulates (case x of None \<Rightarrow> m | Some y \<Rightarrow> n y) (case x of None \<Rightarrow> m' | Some y \<Rightarrow> n' y)"
  by (cases x) simp_all

lemma sim_pair [sim]:
  "(\<And>a b. simulates (f a b) (f' a b)) \<Longrightarrow>
     simulates (case p of (a, b) \<Rightarrow> f a b) (case p of (a, b) \<Rightarrow> f' a b)"
  by (cases p) simp

lemma sim_with_fault [sim]: "simulates m m' \<Longrightarrow> simulates (with_fault env c m) (with_fault env c m')"
  unfolding with_fault_def by (intro sim)

lemma sim_prims [sim]:
  "simulates (mkdir env p) (mkdir env p)" "simulates (write_bytes env p bs) (write_bytes env p bs)"
  "simulates (chmod env p m) (chmod env p m)" "simulates (read_bytes env p) (read_bytes env p)"
  "simulates (rmtree env p) (rmtree env p)" "simulates (mkdtemp env) (mkdtemp env)"
  "simulates (log_op l n d) (log_op l n d)" "simulates (parse_ccache lib p) (parse_ccache lib p)"
  "simulates (alloc obj) (alloc obj')" "simulates (append_bytes a bs) (append_bytes a bs')"
  unfolding io_prims
  by ((intro sim_with_fault)?; auto simp: simulates_def agree_iff mkdtemp_def log_op_def parse_ccache_def
      alloc_def append_bytes_def split: option.split sum.split)+

lemma sim_with_tmpdir [sim]:
  "(\<And>d. simulates (body d) (body' d)) \<Longrightarrow> simulates (with_tmpdir env body) (with_tmpdir env body')"
  unfolding with_tmpdir_def by (intro sim)

text \<open>Reading a secret: the continuations must not tell the bytes apart.\<close>

lemma sim_deref:
  "(\<And>b b'. simulates (f b) (f' b')) \<Longrightarrow> simulates (andthen (deref a) f) (andthen (deref a') f')"
  by (simp add: simulates_def andthen_def deref_def)

lemma sim_zeroing:
  assumes "\<And>w. \<exists>h. length h = length (heap w) \<and> c w = (Inr (), w\<lparr>heap := h\<rparr>)"
  shows "simulates c c"
  unfolding simulates_def
proof (intro allI impI)
  fix w w'
  assume a: "agree w w'"
  obtain h where "length h = length (heap w)" "c w = (Inr (), w\<lparr>heap := h\<rparr>)" using assms by blast
  moreover obtain h' where "length h' = length (heap w')" "c w' = (Inr (), w'\<lparr>heap := h'\<rparr>)"
    using assms by blast
  ultimately show "fst (c w) = fst (c w') \<and> agree (snd (c w)) (snd (c w'))"
    using a by (simp add: agree_iff)
qed


section \<open>Children that do not look at their input\<close>

definition deaf :: "os_env \<Rightarrow> os_env" where
  "deaf env = env\<lparr>child := \<lambda>cmd. child env (cmd\<lparr>stdin := None\<rparr>)\<rparr>"

lemma deaf_fields [simp]:
  "fault (deaf env) = fault env" "fresh_dir (deaf env) = fresh_dir env" "environ (deaf env) = environ env"
  "executable (deaf env) = executable env" "krb5_environ (deaf env) s = krb5_environ env s"
  by (simp_all add: deaf_def krb5_environ_def)

lemma sim_run_subprocess [sim]:
  "simulates (run_subprocess (deaf env) args (Some i) t b ctx ce)
     (run_subprocess (deaf env) args (Some i') t b ctx ce)"
  unfolding run_subprocess_def
proof (rule sim_catching)
  show "simulates (run_child (deaf env) \<lparr>argv = args, stdin = Some i, timeout = t, child_environ = ce\<rparr>)
      (run_child (deaf env) \<lparr>argv = args, stdin = Some i', timeout = t, child_environ = ce\<rparr>)"
    by (auto simp: simulates_def agree_iff run_child_def deaf_def
        split: option.split prod.split child_result.split)
  show "simulates k k" if "subprocess_failure b ctx t e = Some k" for e k
    by (rule subprocess_failure_cases [OF that]) (simp, intro sim)
qed

lemma sim_read_or_fail [sim]:
  "simulates (catching (read_bytes env p) (no_output n d m)) (catching (read_bytes env p) (no_output n d m))"
  by (rule sim_catching, rule sim, erule no_output_cases, simp, intro sim)

lemma sim_failed [sim]:
  "simulates (kinit_failed u k rc err) (kinit_failed u k rc err)"
  "simulates (cern_get_keytab_failed u rc err) (cern_get_keytab_failed u rc err)"
  "simulates (require_nonempty n d m bs) (require_nonempty n d m bs)"
  unfolding kinit_failed_def cern_get_keytab_failed_def require_nonempty_def Let_def
  by (intro sim)+

lemma sim_bytes_of:
  "(\<And>i i'. simulates (f i) (f' i')) \<Longrightarrow> simulates (andthen (bytes_of a) f) (andthen (bytes_of a) f')"
  by (simp add: simulates_def andthen_Inr bytes_of_run agree_iff)

lemma sim_stdin_buffer [sim]: "simulates (stdin_buffer a) (stdin_buffer a)"
  by (simp add: simulates_def stdin_buffer_run agree_iff)

lemma sim_mint_from_kinit [sim]:
  "simulates (mint_from_kinit (deaf env) lib s u kt cp args (Some i))
     (mint_from_kinit (deaf env) lib s u kt cp args (Some i'))"
  unfolding mint_from_kinit_def Let_def by (intro sim)

lemma sim_mint_in_tmpdir [sim]:
  "simulates (mint_in_tmpdir (deaf env) lib s u l r (Some a) None d)
     (mint_in_tmpdir (deaf env) lib s u l r (Some a) None d)"
  unfolding mint_in_tmpdir_def Let_def option.case ret_andthen andthen_assoc
  by (intro sim_bytes_of) (simp add: sim_mint_from_kinit)

lemma sim_keytab_in_tmpdir [sim]:
  "simulates (keytab_in_tmpdir (deaf env) s u a d) (keytab_in_tmpdir (deaf env) s u a d)"
  unfolding keytab_in_tmpdir_def Let_def deaf_fields by (intro sim_bytes_of sim)

text \<open>
  C2: the password influences nothing but the child's standard input. Run on two passwords of the
  same buffer, against a child that answers both alike, \<open>mint_ticket\<close> and \<open>mint_keytab\<close> return the
  same result and leave the same files, directories, log and command lines.
\<close>

theorem password_noninterference:
  "let v = w\<lparr>heap := (heap w)[a := ByteArray pw]\<rparr>; v' = w\<lparr>heap := (heap w)[a := ByteArray pw']\<rparr>
   in fst (mint_ticket (deaf env) lib s u (Some a) l r None v) =
        fst (mint_ticket (deaf env) lib s u (Some a) l r None v')
    \<and> public (snd (mint_ticket (deaf env) lib s u (Some a) l r None v)) =
        public (snd (mint_ticket (deaf env) lib s u (Some a) l r None v'))
    \<and> fst (mint_keytab (deaf env) s u a v) = fst (mint_keytab (deaf env) s u a v')
    \<and> public (snd (mint_keytab (deaf env) s u a v)) = public (snd (mint_keytab (deaf env) s u a v'))"
proof -
  let ?v = "w\<lparr>heap := (heap w)[a := ByteArray pw]\<rparr>" and ?v' = "w\<lparr>heap := (heap w)[a := ByteArray pw']\<rparr>"
  have ag: "agree ?v ?v'" by (simp add: agree_iff)
  have z: "simulates (zero_if_given x) (zero_if_given x)" "simulates (zero_bytearray y) (zero_bytearray y)" for x y
    by (intro sim_zeroing zeroing_any)+
  have "simulates (mint_ticket (deaf env) lib s u (Some a) l r None) (mint_ticket (deaf env) lib s u (Some a) l r None)"
    unfolding mint_ticket_def option.case andthen_assoc ret_andthen by (intro sim z)
  moreover have "simulates (mint_keytab (deaf env) s u a) (mint_keytab (deaf env) s u a)"
    unfolding mint_keytab_def by (intro sim z)
  ultimately show ?thesis
    using ag unfolding simulates_def Let_def agree_def by blast
qed

section \<open>Copies that are not zeroed\<close>

lemma tmpdir_heap_frame:
  assumes "fresh_dir env = Inr d" and "heap_frame (w\<lparr>heap := heap w @ [x]\<rparr>) (snd (body d (w\<lparr>dirs := (dirs w)(d \<mapsto> 448)\<rparr>)))"
  shows "\<exists>bs. heap (snd (with_tmpdir env body w)) = heap w @ x # map Bytes bs"
proof -
  let ?w1 = "w\<lparr>dirs := (dirs w)(d \<mapsto> 448)\<rparr>"
  obtain r w2 where b: "body d ?w1 = (r, w2)" by (cases "body d ?w1")
  have "heap (snd (rmtree env d w2)) = heap w2"
    by (simp add: rmtree_def with_fault_def throw_def split: option.split)
  moreover obtain q w3 where "rmtree env d w2 = (q, w3)" by (cases "rmtree env d w2")
  ultimately have "heap (snd (with_tmpdir env body w)) = heap w2"
    using assms(1) b
    by (cases q) (simp_all add: with_tmpdir_def mkdtemp_def andthen_def finally_do_def)
  with assms(2) b show ?thesis by (auto simp: heap_frame_def)
qed

lemma mint_copy:
  assumes "fresh_dir env = Inr d"
  shows "\<exists>bs. heap (snd (with_tmpdir env (mint_in_tmpdir env lib s u l r (Some p) None) w)) =
      heap w @ Bytes (raw (heap w ! p)) # map Bytes bs"
    and "\<exists>bs. heap (snd (with_tmpdir env (mint_in_tmpdir env lib s u l r None (Some p)) w)) =
      heap w @ Bytes (raw (heap w ! p)) # map Bytes bs"
proof -
  let ?w1 = "w\<lparr>dirs := (dirs w)(d \<mapsto> 448)\<rparr>"
  let ?x = "Bytes (raw (heap w ! p))"
  have tail: "heap_frame (w\<lparr>heap := heap w @ [?x]\<rparr>) (snd (m (?w1\<lparr>heap := heap w @ [?x]\<rparr>)))"
    if "hp.keeps m" for m :: "(bytes \<times> ccache_info) op"
    using that by (auto simp: hp.keeps_def heap_frame_def dest!: spec [of _ "?w1\<lparr>heap := heap w @ [?x]\<rparr>"])
  have k: "hp.keeps (mint_from_kinit env lib s u kt cp args i)" for kt cp args i
    by (intro keeps_intro)
  show "\<exists>bs. heap (snd (with_tmpdir env (mint_in_tmpdir env lib s u l r (Some p) None) w)) =
      heap w @ ?x # map Bytes bs"
    by (rule tmpdir_heap_frame [OF assms]) (use tail [OF k] in \<open>simp add: mint_in_tmpdir_password\<close>)
  let ?m = "andthen (andthen (write_bytes env (join_path d ''keytab'') (raw (heap w ! p))) (\<lambda>_.
      andthen (chmod env (join_path d ''keytab'') 384) (\<lambda>_. ret ([kinit_bin s, lit ''-c'',
        lit ''FILE:'' @ join_path d ''ccache''] @ [lit ''-k'', lit ''-t'', join_path d ''keytab'']))))
    (\<lambda>argv1. mint_from_kinit env lib s u True (join_path d ''ccache'')
       (argv1 @ [lit ''-l'', l, lit ''-r'', r, principal_of u s]) None)"
  have m: "hp.keeps ?m" by (intro keeps_intro)
  have eq: "mint_in_tmpdir env lib s u l r None (Some p) d ?w1 = ?m (?w1\<lparr>heap := heap w @ [?x]\<rparr>)"
    by (simp add: mint_in_tmpdir_def Let_def andthen_assoc andthen_Inr bytes_of_run)
  show "\<exists>bs. heap (snd (with_tmpdir env (mint_in_tmpdir env lib s u l r None (Some p)) w)) =
      heap w @ ?x # map Bytes bs"
    by (rule tmpdir_heap_frame [OF assms]) (unfold eq, rule tail [OF m])
qed



end
