(* ===== verification/Spec2Isabelle.thy ===== *)
theory Spec2Isabelle
  imports App_Memory App_Types Jwks_Flight App_Probes App_Cases Minting_Secrecy
begin

text \<open>
  krb5-token-service: a FastAPI service (src/krb5_token_service) that takes a token of the broker and
  a CERN password or keytab, runs kinit, and returns the Kerberos credential cache. This is a model
  of its eight modules and the proofs about them.

  \<^bold>\<open>How the program is put together, and where it is modelled.\<close>

  A request enters a handler of app.py (\<open>mint\<close>, \<open>renew\<close>, \<open>keytab\<close>; theory \<open>App\<close>). The handler verifies
  the bearer token (identity.py: \<open>verify_broker_token\<close>, over the JWKS cache of \<open>get_jwks\<close>; theory
  \<open>Identity\<close>), validates username and lifetimes (minting.py, the two regular expressions; theory
  \<open>Validation\<close>), asks the failed-authentication limiter (ratelimit.py; theory \<open>Ratelimit\<close>) when a
  password is involved, decodes the credential (\<open>Py_Base64\<close>), and calls \<open>mint_ticket\<close>, \<open>renew_ticket\<close> or
  \<open>mint_keytab\<close> (minting.py; theory \<open>Minting\<close>), which stage files in a temporary directory, run a child
  process and parse the credential cache it leaves (ccache.py; theory \<open>Ccache\<close>). Every exception is
  mapped to a status and one audit line (logging.py; theory \<open>Logging\<close>). Settings and their constraints
  are in theory \<open>Config\<close> (config.py); \<open>create_app\<close>, \<open>healthz\<close> and \<open>readyz\<close> are in \<open>App\<close>.

  The state of the service is the record \<open>service\<close>: the limiter, the JWKS cache, and the \<open>world\<close> of
  theory \<open>Runtime\<close> (files, directories, byte buffers with identity, processes started, log). An operation
  is a function from a state to a result and a state (\<open>act\<close>), where the result is \<open>Inl\<close> of an
  exception or \<open>Inr\<close> of a value; \<open>andthen\<close>, \<open>catching\<close>, \<open>try_else\<close> and \<open>finally_do\<close> are sequencing,
  \<open>except\<close>, \<open>else\<close> and \<open>finally\<close>. Python text is a list of code points, bytes are lists of 8-bit words
  (theories \<open>Prelude\<close>, \<open>Py_Text\<close>, \<open>Py_Base64\<close>, \<open>Py_Datetime\<close>).

  \<^bold>\<open>What is a parameter.\<close> What the repository does not contain is an argument of the definitions that
  use it: the operating system and the child processes (\<open>os_env\<close>), pykrb5 (\<open>krb5_lib\<close>), httpx
  (\<open>http_lib\<close>), PyJWT (\<open>jwt_lib\<close>), structlog's own processors, \<open>shutil.which\<close> and \<open>os.access\<close>. Clock
  readings and the fresh uuid are arguments (\<open>deps\<close>). The only assumptions about these parameters
  are \<open>plain_krb5\<close> and \<open>plain_jwt\<close>: the libraries do not raise FastAPI's or the service's own exceptions.

  \<^bold>\<open>What the lemmas show.\<close>

  \<^item> \<open>Ratelimit\<close>: the contract of the limiter as the locale \<open>failed_auth_limiter\<close>, interpreted for the
    code; pruning as it goes counts exactly the window of the whole history.
  \<^item> \<open>Gate\<close>: the limiter under interleaved requests, as a step relation: the attempt budget with at
    most \<open>k\<close> attempts of a username in flight together, the absence of any bound of the limiter's own
    on \<open>k\<close>, lockouts that end.
  \<^item> \<open>Validation\<close>: both regular expressions, transcribed with combinators, equal direct descriptions.
  \<^item> \<open>Ccache\<close>: which credential \<open>read_ccache\<close> reports.
  \<^item> \<open>Frames\<close>: the locale \<open>state_order\<close>, for a relation an operation stays inside, with its closure
    under composition, and \<open>world_order\<close>, which extends it; interpreted for buffers, log and
    processes here, for the service in \<open>App_Frames\<close>, \<open>App_Replies\<close> and \<open>App_Keys\<close>.
  \<^item> \<open>Minting_Spec\<close>, \<open>Minting_Calls\<close>, \<open>Minting_Outcome\<close>, \<open>Minting_Secrecy\<close>: zeroing, the exact command
    lines and the removal of the staging directory, results as functions of what the child did, and
    noninterference of the password; \<open>Raises\<close>: the exceptions.
  \<^item> \<open>Identity_Spec\<close>: what the cache answers, key selection, which tokens are accepted.
  \<^item> \<open>App_Guards\<close>, \<open>App_Audit\<close>, \<open>App_Answers\<close>, \<open>App_Replies\<close>: what precedes a process, one audit line per
    answer, when the limiter moves, and the answer of every request as a table.
  \<^item> \<open>App_Service\<close>, \<open>App_Segments\<close>, \<open>App_Moves\<close>, \<open>App_Concurrent\<close>: the calls of the three endpoints, cut at
    their \<open>await\<close> points (the three segments of a handler in a row are the handler), and a system
    of any number of tasks whose segments interleave in any order while time passes. Every run of the
    system is a run of the gate machine, so the budget holds end to end; the audit log, the list of
    failures, the cached keys (\<open>App_Keys\<close>) and the attempts in flight are invariants of every run.
    \<open>App_Memory\<close>: in every run each credential buffer has one owner, whose credential it holds, and
    is zeros once the owner's operation has ended.
  \<^item> \<open>Jwks_Flight\<close>: \<open>get_jwks\<close> cut at its own two awaits, with \<open>asyncio.Lock\<close> between the tasks: one
    fetch at a time, successful refreshes a time to live apart, nobody left waiting, and what is not
    shared when the endpoint is down.
  \<^item> \<open>App_Types\<close>, \<open>Calendar\<close>: the types of the answers; CPython's date computation against its inverse.
  \<^item> \<open>App_Probes\<close>: readyz. \<open>App_Samples\<close>, \<open>App_Refusing\<close>, \<open>App_Cases\<close>: concrete requests, and where
    exceptions escape.

  \<^bold>\<open>Bounds and fuel.\<close> No definition takes fuel: every loop of the program is over a list it was given.
  The \<open>k\<close> of the concurrent theorems is any bound on the attempts of one username that overlap; the
  program sets none itself.

  \<^bold>\<open>Simplifications.\<close> Clock readings are rationals, so the rounding of floats is not modelled. The texts
  of \<open>TypeError\<close>, \<open>UnicodeError\<close> and pydantic's errors are abbreviated; they reach no client and no
  decision. Paths are joined as text, without normalisation. The body of FastAPI's own 422 is
  represented by its message. In \<open>App_Concurrent\<close> the verification of a token is one segment (its two
  awaits are in \<open>Jwks_Flight\<close>), and a minting operation runs whole in the third segment, although its
  file work before the child starts precedes the switch: each operation works in a directory and on
  buffers of its own. A call's clock readings, uuid and the answers of its collaborators are fixed
  with the call, and a segment runs when the clock shows its reading. Tasks are not cancelled.

  \<^bold>\<open>Not modelled.\<close> etc/cern-get-keytab (CERN's vendored script with a patch; it is started as a child),
  the Helm chart, the container image and the tests; the renderers and handler objects of structlog
  and logging; routing and field parsing of FastAPI and pydantic; reading the environment.
\<close>

end
